theory Spec2Isabelle
  imports Main
begin

section \<open>Error taxonomy (src/utils/errors.ts)\<close>

text \<open>
  An \<open>Error\<close> object as the retry logic sees it: either a plain \<open>Error\<close> with its
  message, or an \<open>AppError\<close> (any of its subclasses) with its message and its
  \<open>isTransient\<close> flag.  The other fields of \<open>AppError\<close> (code, statusCode,
  originalError) are never read by the code modelled here.  A \<open>RetryExhaustedError\<close>
  that an operation throws itself (from a \<open>retry\<close> of its own) is such an
  \<open>AppError\<close>, with \<open>isTransient = false\<close>.
\<close>

datatype error = PlainError string | AppError string bool

text \<open>
  \<open>String.prototype.toLowerCase\<close> and \<open>RegExp.prototype.test\<close> for a pattern without
  metacharacters, on strings of 8-bit characters.
\<close>

definition toLowerCase_char :: "char \<Rightarrow> char" where
  "toLowerCase_char c =
     (let n = (of_char c :: nat)
      in if of_char CHR ''A'' \<le> n \<and> n \<le> of_char CHR ''Z'' then char_of (n + 32) else c)"

definition toLowerCase :: "string \<Rightarrow> string" where
  "toLowerCase s = map toLowerCase_char s"

fun startsWith :: "string \<Rightarrow> string \<Rightarrow> bool" where
  "startsWith s [] = True"
| "startsWith [] (p # ps) = False"
| "startsWith (c # cs) (p # ps) = (c = p \<and> startsWith cs ps)"

fun test_literal :: "string \<Rightarrow> string \<Rightarrow> bool" where
  "test_literal pat [] = (pat = [])"
| "test_literal pat (c # cs) = (startsWith (c # cs) pat \<or> test_literal pat cs)"

definition transientPatterns :: "string list" where
  "transientPatterns =
     [''ECONNREFUSED'', ''ETIMEDOUT'', ''ENOTFOUND'', ''ECONNRESET'', ''EPIPE'',
      ''timeout'', ''network'', ''temporary'']"

fun isTransientError :: "error \<Rightarrow> bool" where
  "isTransientError (AppError msg isTransient) = isTransient"
| "isTransientError (PlainError msg) =
     (let errorMessage = toLowerCase msg
      in list_ex (\<lambda>pattern. test_literal pattern errorMessage) transientPatterns)"

section \<open>Retry with backoff (src/utils/retry.ts)\<close>

text \<open>
  What \<open>retry\<close> can raise: the operation's own error re-thrown, a
  \<open>RetryExhaustedError\<close> carrying the attempt count and the last error, or the value
  \<open>undefined\<close> (the final \<open>throw lastError\<close> when the loop body never ran).
\<close>

datatype raised = Rethrown error | RetryExhaustedError int error | ThrownUndefined

text \<open>
  The caller's configuration has optional fields; \<open>DEFAULT_RETRY_CONFIG\<close> fills the
  missing ones.  Only \<open>maxAttempts\<close> (a number, taken as an integer) and
  \<open>retryableErrors\<close> influence which calls are made and what is raised; the delay
  fields only set how long the loop sleeps between two attempts and are left out, as is
  the sleep itself.
\<close>

record RetryConfig =
  maxAttempts :: "int option"
  retryableErrors :: "(error \<Rightarrow> bool) option"

record RequiredRetryConfig =
  req_maxAttempts :: int
  req_retryableErrors :: "error \<Rightarrow> bool"

definition DEFAULT_RETRY_CONFIG :: RequiredRetryConfig where
  "DEFAULT_RETRY_CONFIG = \<lparr>req_maxAttempts = 3, req_retryableErrors = isTransientError\<rparr>"

definition finalConfig :: "RetryConfig \<Rightarrow> RequiredRetryConfig" where
  "finalConfig config =
     \<lparr>req_maxAttempts =
        (case maxAttempts config of None \<Rightarrow> req_maxAttempts DEFAULT_RETRY_CONFIG | Some n \<Rightarrow> n),
      req_retryableErrors =
        (case retryableErrors config of
           None \<Rightarrow> req_retryableErrors DEFAULT_RETRY_CONFIG | Some p \<Rightarrow> p)\<rparr>"

text \<open>
  The operation \<open>fn\<close> is a closure with effects: it maps the state of the world to its
  outcome (\<open>Inl\<close> the error thrown, \<open>Inr\<close> the value returned) and the new state of
  the world.  The loop of \<open>retry\<close>, from attempt number \<open>attempt\<close> on:
\<close>

function retry_loop ::
  "RequiredRetryConfig \<Rightarrow> ('w \<Rightarrow> (error + 'a) \<times> 'w) \<Rightarrow> int \<Rightarrow> error option \<Rightarrow> 'w
     \<Rightarrow> (raised + 'a) \<times> 'w" where
  "retry_loop cfg fn attempt lastError w =
     (if attempt \<le> req_maxAttempts cfg then
        (case fn w of
           (Inr v, w') \<Rightarrow> (Inr v, w')
         | (Inl e, w') \<Rightarrow>
             (let shouldRetry = req_retryableErrors cfg e in
              if \<not> shouldRetry \<or> attempt \<ge> req_maxAttempts cfg then
                (if attempt \<ge> req_maxAttempts cfg
                 then (Inl (RetryExhaustedError (req_maxAttempts cfg) e), w')
                 else (Inl (Rethrown e), w'))
              else retry_loop cfg fn (attempt + 1) (Some e) w'))
      else (Inl (case lastError of None \<Rightarrow> ThrownUndefined | Some e \<Rightarrow> Rethrown e), w))"
  by pat_completeness auto
termination
  by (relation "measure (\<lambda>(cfg, fn, attempt, lastError, w). nat (req_maxAttempts cfg + 1 - attempt))")
     auto

declare retry_loop.simps [simp del]

definition retry :: "('w \<Rightarrow> (error + 'a) \<times> 'w) \<Rightarrow> RetryConfig \<Rightarrow> 'w \<Rightarrow> (raised + 'a) \<times> 'w" where
  "retry fn config w = retry_loop (finalConfig config) fn 1 None w"

text \<open>
  Instrumentation for stating properties: \<open>logged_as mark fn\<close> behaves as \<open>fn\<close> and
  appends a record \<open>mark r\<close> of the outcome \<open>r\<close> of every invocation to a log kept beside
  the world; \<open>logged fn\<close> records the outcomes themselves.
\<close>

definition logged_as ::
  "((error + 'a) \<Rightarrow> 'l) \<Rightarrow> ('w \<Rightarrow> (error + 'a) \<times> 'w) \<Rightarrow> 'l list \<times> 'w
     \<Rightarrow> (error + 'a) \<times> ('l list \<times> 'w)" where
  "logged_as mark fn = (\<lambda>(log, w). case fn w of (r, w') \<Rightarrow> (r, (log @ [mark r], w')))"

definition logged ::
  "('w \<Rightarrow> (error + 'a) \<times> 'w) \<Rightarrow> (error + 'a) list \<times> 'w
     \<Rightarrow> (error + 'a) \<times> ((error + 'a) list \<times> 'w)" where
  "logged fn = logged_as (\<lambda>r. r) fn"

text \<open>
  How the result of the loop, started at attempt number \<open>attempt\<close> with \<open>lastError = le\<close>,
  relates to the outcomes \<open>new\<close> of the invocations it makes: all but the last are
  retryable failures, and the result is decided by the last one.
\<close>

definition retry_outcome ::
  "RequiredRetryConfig \<Rightarrow> int \<Rightarrow> error option \<Rightarrow> raised + 'a \<Rightarrow> (error + 'a) list \<Rightarrow> bool" where
  "retry_outcome cfg attempt le res new =
     (int (length new) \<le> max 0 (req_maxAttempts cfg + 1 - attempt)
      \<and> (\<forall>x \<in> set (butlast new). \<exists>e. x = Inl e \<and> req_retryableErrors cfg e)
      \<and> (case res of
            Inr v \<Rightarrow> new \<noteq> [] \<and> last new = Inr v
          | Inl (RetryExhaustedError n e) \<Rightarrow>
              n = req_maxAttempts cfg \<and> new \<noteq> [] \<and> last new = Inl e
              \<and> int (length new) = req_maxAttempts cfg + 1 - attempt
          | Inl (Rethrown e) \<Rightarrow>
              (new \<noteq> [] \<and> last new = Inl e \<and> \<not> req_retryableErrors cfg e
                \<and> int (length new) < req_maxAttempts cfg + 1 - attempt)
              \<or> (new = [] \<and> le = Some e \<and> req_maxAttempts cfg < attempt)
          | Inl ThrownUndefined \<Rightarrow> new = [] \<and> le = None \<and> req_maxAttempts cfg < attempt))"

section \<open>Conversation context manager (src/bridge/context.ts)\<close>

text \<open>
  The store is the \<open>Map\<close> from chat id to context, modelled as a partial function;
  \<open>maxHistoryLength\<close> and \<open>maxAge\<close> are the numbers the constructor stores, taken
  as integers.  Every method that reads \<open>Date.now()\<close> takes that reading as the
  argument \<open>now\<close> (milliseconds), and every method returns the manager it leaves behind.
  The methods that only iterate over the map (\<open>getStats\<close>,
  \<open>cleanupExpiredConversations\<close>, \<open>getActiveConversations\<close>) are not modelled.
\<close>

datatype role = System | User | Assistant

record MoltbotMessage =
  role :: role
  content :: string

record ConversationContext =
  chatId :: string
  messages :: "MoltbotMessage list"
  lastActivity :: int
  messageCount :: int

record ConversationContextManager =
  conversations :: "string \<rightharpoonup> ConversationContext"
  maxHistoryLength :: int
  maxAge :: int

definition new_ConversationContextManager :: "int \<Rightarrow> int \<Rightarrow> ConversationContextManager" where
  "new_ConversationContextManager maxHistoryLength' maxAgeHours =
     \<lparr>conversations = Map.empty, maxHistoryLength = maxHistoryLength',
      maxAge = maxAgeHours * 60 * 60 * 1000\<rparr>"

text \<open>
  \<open>addMessage\<close>: look the context up or create it, push the message, set
  \<open>lastActivity\<close>, count the message, then \<open>splice(0, length - maxHistoryLength)\<close> when
  the history is too long.  The source mutates the context object held by the map; the
  model stores the final object.  A context created here gets \<open>lastActivity = now\<close>
  twice, from two clock readings of which only the second survives.
\<close>

definition addMessage ::
  "ConversationContextManager \<Rightarrow> int \<Rightarrow> string \<Rightarrow> MoltbotMessage \<Rightarrow> ConversationContextManager" where
  "addMessage mgr now cid message =
     (let context = (case conversations mgr cid of
                       None \<Rightarrow> \<lparr>ConversationContext.chatId = cid, messages = [],
                                lastActivity = now, messageCount = 0\<rparr>
                     | Some c \<Rightarrow> c);
          context = context\<lparr>messages := messages context @ [message],
                            lastActivity := now,
                            messageCount := messageCount context + 1\<rparr>;
          context = (if int (length (messages context)) > maxHistoryLength mgr
                     then context\<lparr>messages :=
                            drop (nat (int (length (messages context)) - maxHistoryLength mgr))
                                 (messages context)\<rparr>
                     else context)
      in mgr\<lparr>conversations := (conversations mgr)(cid \<mapsto> context)\<rparr>)"

text \<open>\<open>getContext\<close> returns the history and, when the context has expired, deletes it.\<close>

definition getContext ::
  "ConversationContextManager \<Rightarrow> int \<Rightarrow> string \<Rightarrow> MoltbotMessage list \<times> ConversationContextManager" where
  "getContext mgr now cid =
     (case conversations mgr cid of
        None \<Rightarrow> ([], mgr)
      | Some context \<Rightarrow>
          (let age = now - lastActivity context in
           if age > maxAge mgr
           then ([], mgr\<lparr>conversations := (conversations mgr)(cid := None)\<rparr>)
           else (messages context, mgr)))"

definition clearContext :: "ConversationContextManager \<Rightarrow> string \<Rightarrow> ConversationContextManager" where
  "clearContext mgr cid =
     (case conversations mgr cid of
        None \<Rightarrow> mgr
      | Some context \<Rightarrow> mgr\<lparr>conversations := (conversations mgr)(cid := None)\<rparr>)"

definition hasConversation :: "ConversationContextManager \<Rightarrow> string \<Rightarrow> bool" where
  "hasConversation mgr cid = (conversations mgr cid \<noteq> None)"

text \<open>
  A sequence of \<open>addMessage\<close> calls for one chat, each with its clock reading, and the
  history stored for a chat (empty when there is no context).
\<close>

fun addMessages ::
  "ConversationContextManager \<Rightarrow> string \<Rightarrow> (int \<times> MoltbotMessage) list \<Rightarrow> ConversationContextManager" where
  "addMessages mgr cid [] = mgr"
| "addMessages mgr cid ((now, message) # rest) =
     addMessages (addMessage mgr now cid message) cid rest"

definition history :: "ConversationContextManager \<Rightarrow> string \<Rightarrow> MoltbotMessage list" where
  "history mgr cid = (case conversations mgr cid of None \<Rightarrow> [] | Some c \<Rightarrow> messages c)"

section \<open>Stream processor (src/bridge/processor.ts, class StreamProcessor)\<close>

text \<open>
  The options as the caller gives them, every field optional, and as the constructor
  stores them: \<open>chunkThreshold || 100\<close>, \<open>timeThreshold || 1000\<close> (so an absent or zero
  threshold becomes the default) and \<open>sendPartialUpdates ?? true\<close>.  Lengths and times
  are integers; the length of a string is its number of characters.
\<close>

record StreamProcessingOptions =
  chunkThreshold :: "int option"
  timeThreshold :: "int option"
  sendPartialUpdates :: "bool option"

record StoredOptions =
  opt_chunkThreshold :: int
  opt_timeThreshold :: int
  opt_sendPartialUpdates :: bool

record StreamProcessor =
  buffer :: string
  lastUpdateTime :: int
  isComplete :: bool
  chatId :: string
  options :: StoredOptions

definition new_StreamProcessor :: "string \<Rightarrow> StreamProcessingOptions \<Rightarrow> StreamProcessor" where
  "new_StreamProcessor cid opts =
     \<lparr>buffer = [], lastUpdateTime = 0, isComplete = False, chatId = cid,
      options =
        \<lparr>opt_chunkThreshold =
           (case chunkThreshold opts of None \<Rightarrow> 100 | Some n \<Rightarrow> if n = 0 then 100 else n),
         opt_timeThreshold =
           (case timeThreshold opts of None \<Rightarrow> 1000 | Some n \<Rightarrow> if n = 0 then 1000 else n),
         opt_sendPartialUpdates =
           (case sendPartialUpdates opts of None \<Rightarrow> True | Some b \<Rightarrow> b)\<rparr>\<rparr>"

definition shouldSendPartialUpdate :: "StreamProcessor \<Rightarrow> int \<Rightarrow> bool" where
  "shouldSendPartialUpdate p now =
     (if \<not> opt_sendPartialUpdates (options p) then False
      else
        (let timeSinceLastUpdate = now - lastUpdateTime p;
             bufferLength = int (length (buffer p))
         in bufferLength \<ge> opt_chunkThreshold (options p)
            \<or> (bufferLength > 0 \<and> timeSinceLastUpdate \<ge> opt_timeThreshold (options p))))"

text \<open>
  The callback \<open>onPartialUpdate\<close> is a closure with effects on a world \<open>'w\<close>.  It is
  called with the chat id, the content and the final flag; as a closure it may also hold
  a reference to the processor and read it, so the model hands it the processor's
  current state as a first, read-only argument.  \<open>sendPartialUpdate\<close> delivers through
  \<open>retry\<close> with \<open>maxAttempts: 3\<close>, clears the buffer after a successful final
  delivery, and re-throws what \<open>retry\<close> raised.
\<close>

type_synonym 'w callback =
  "StreamProcessor \<Rightarrow> string \<Rightarrow> string \<Rightarrow> bool \<Rightarrow> 'w \<Rightarrow> (error + unit) \<times> 'w"

definition sendPartialUpdate ::
  "'w callback \<Rightarrow> StreamProcessor \<Rightarrow> string \<Rightarrow> bool \<Rightarrow> 'w
     \<Rightarrow> (raised + unit) \<times> StreamProcessor \<times> 'w" where
  "sendPartialUpdate onPartialUpdate p content' isComplete' w =
     (case retry (onPartialUpdate p (chatId p) content' isComplete')
                 \<lparr>maxAttempts = Some 3, retryableErrors = None\<rparr> w of
        (Inr u, w') \<Rightarrow> (Inr (), (if isComplete' then p\<lparr>buffer := []\<rparr> else p), w')
      | (Inl err, w') \<Rightarrow> (Inl err, p, w'))"

text \<open>
  The streaming response: the fragments of \<open>textStream\<close> in arrival order, each paired
  with the reading of \<open>Date.now()\<close> that \<open>process\<close> takes on receiving it; the error
  with which the iteration ends, if it ends with one; and the settled \<open>finishReason\<close>
  promise (\<open>Inl\<close> when it rejects).
\<close>

record MoltbotStreamResponse =
  textStream :: "(string \<times> int) list"
  textStream_error :: "error option"
  finishReason :: "error + string option"

text \<open>The \<open>for await\<close> loop of \<open>process\<close>, carrying \<open>fullResponse\<close>.\<close>

fun process_chunks ::
  "'w callback \<Rightarrow> (string \<times> int) list \<Rightarrow> string \<Rightarrow> StreamProcessor \<Rightarrow> 'w
     \<Rightarrow> (raised + string) \<times> StreamProcessor \<times> 'w" where
  "process_chunks onPartialUpdate [] fullResponse p w = (Inr fullResponse, p, w)"
| "process_chunks onPartialUpdate ((chunk, now) # rest) fullResponse p w =
     (let p = p\<lparr>buffer := buffer p @ chunk\<rparr>;
          fullResponse = fullResponse @ chunk
      in if shouldSendPartialUpdate p now then
           (case sendPartialUpdate onPartialUpdate p (buffer p) False w of
              (Inl err, p', w') \<Rightarrow> (Inl err, p', w')
            | (Inr u, p', w') \<Rightarrow>
                process_chunks onPartialUpdate rest fullResponse (p'\<lparr>lastUpdateTime := now\<rparr>) w')
         else process_chunks onPartialUpdate rest fullResponse p w)"

definition process ::
  "'w callback \<Rightarrow> StreamProcessor \<Rightarrow> MoltbotStreamResponse \<Rightarrow> 'w
     \<Rightarrow> (raised + string) \<times> StreamProcessor \<times> 'w" where
  "process onPartialUpdate p streamResponse w =
     (case process_chunks onPartialUpdate (textStream streamResponse) [] p w of
        (Inl err, p', w') \<Rightarrow> (Inl err, p', w')
      | (Inr fullResponse, p', w') \<Rightarrow>
          (case textStream_error streamResponse of
             Some e \<Rightarrow> (Inl (Rethrown e), p', w')
           | None \<Rightarrow>
               (let p' = p'\<lparr>isComplete := True\<rparr>
                in case sendPartialUpdate onPartialUpdate p' fullResponse True w' of
                     (Inl err, p'', w'') \<Rightarrow> (Inl err, p'', w'')
                   | (Inr u, p'', w'') \<Rightarrow>
                       (case finishReason streamResponse of
                          Inl e \<Rightarrow> (Inl (Rethrown e), p'', w'')
                        | Inr reason \<Rightarrow> (Inr fullResponse, p'', w'')))))"

definition reset :: "StreamProcessor \<Rightarrow> StreamProcessor" where
  "reset p = p\<lparr>buffer := [], lastUpdateTime := 0, isComplete := False\<rparr>"

text \<open>
  Instrumentation: every call of the callback is recorded with its content, its final
  flag, the value of the processor's \<open>isComplete\<close> at the time of the call, and its
  outcome.
\<close>

record emit_call =
  call_content :: string
  call_isFinal :: bool
  call_whileComplete :: bool
  call_outcome :: "error + unit"

definition logged_emit :: "'w callback \<Rightarrow> (emit_call list \<times> 'w) callback" where
  "logged_emit onPartialUpdate p cid content' isComplete' =
     logged_as (\<lambda>r. \<lparr>call_content = content', call_isFinal = isComplete',
                     call_whileComplete = isComplete p, call_outcome = r\<rparr>)
               (onPartialUpdate p cid content' isComplete')"

definition calls_of :: "string \<Rightarrow> bool \<Rightarrow> bool \<Rightarrow> (error + unit) list \<Rightarrow> emit_call list" where
  "calls_of c f cpl rs =
     map (\<lambda>r. \<lparr>call_content = c, call_isFinal = f, call_whileComplete = cpl, call_outcome = r\<rparr>) rs"

section \<open>Message transformer (src/bridge/processor.ts, second part)\<close>

text \<open>
  The parsed platform message (\<open>ParsedLarkMessage\<close> of src/lark/types.ts) and the two
  result records of the transformer.  Optional fields are options.  Where the source's
  field name is an Isar keyword or is taken by an earlier record, the field carries a
  prime or a prefix: \<open>text'\<close>, \<open>context'\<close>, \<open>msg_text\<close>, \<open>resp_text\<close>,
  \<open>el_name\<close>, \<open>att_type\<close>, \<open>ctx_chatId\<close> and so on.  A string is truthy in a
  condition when it is defined and not empty.
\<close>

datatype LarkMessageType = TEXT | POST | IMAGE | FILE | AUDIO | MEDIA | STICKER | INTERACTIVE

record LarkMention =
  mention_id :: string
  name :: string

record LarkPostElement =
  tag :: string
  text' :: "string option"
  href :: "string option"
  user_id :: "string option"
  el_name :: "string option"

record LarkPostContent =
  zh_cn :: "LarkPostElement list option"
  en_us :: "LarkPostElement list option"

record ParsedLarkMessage =
  messageId :: string
  chatId :: string
  senderId :: string
  senderType :: string
  messageType :: LarkMessageType
  textContent :: "string option"
  postContent :: "LarkPostContent option"
  imageKey :: "string option"
  fileKey :: "string option"
  mentions :: "LarkMention list option"
  timestamp :: int

datatype attachment_type = Image | File

record MessageAttachment =
  att_type :: attachment_type
  key :: string

record MessageContext =
  ctx_chatId :: string
  ctx_senderId :: string
  ctx_senderType :: string
  ctx_timestamp :: int
  ctx_messageId :: string

record ParsedMessageForMoltbot =
  msg_text :: string
  attachments :: "MessageAttachment list option"
  context' :: MessageContext

definition truthy :: "string option \<Rightarrow> bool" where
  "truthy s = (case s of None \<Rightarrow> False | Some t \<Rightarrow> t \<noteq> [])"

text \<open>\<open>a || b\<close> on optional strings, ending in the default \<open>""\<close>.\<close>

definition or_empty :: "string option list \<Rightarrow> string" where
  "or_empty alternatives = (case filter truthy alternatives of Some t # rest \<Rightarrow> t | _ \<Rightarrow> [])"

fun join :: "string \<Rightarrow> string list \<Rightarrow> string" where
  "join sep [] = []"
| "join sep [x] = x"
| "join sep (x # y # ys) = x @ sep @ join sep (y # ys)"

definition extractTextFromPost :: "LarkPostContent \<Rightarrow> string" where
  "extractTextFromPost post =
     (let elements = (case zh_cn post of Some es \<Rightarrow> es
                      | None \<Rightarrow> (case en_us post of Some es \<Rightarrow> es | None \<Rightarrow> []))
      in join []
           (map (\<lambda>element.
                   if tag element = ''text'' then or_empty [text' element]
                   else if tag element = ''a'' then or_empty [text' element, href element]
                   else if tag element = ''at''
                     then ''@'' @ or_empty [user_id element, el_name element]
                   else [])
                elements))"

text \<open>
  \<open>transformLarkToMoltbot\<close>.  Nothing in its \<open>try\<close> block can throw on a message of
  this type, so the \<open>catch\<close> that wraps failures in a \<open>TransformationError\<close> has no
  branch in the model.
\<close>

definition transformLarkToMoltbot :: "ParsedLarkMessage \<Rightarrow> ParsedMessageForMoltbot" where
  "transformLarkToMoltbot message =
     (let text = (if truthy (textContent message) then (case textContent message of Some t \<Rightarrow> t | None \<Rightarrow> [])
                  else (case postContent message of
                          Some post \<Rightarrow> extractTextFromPost post
                        | None \<Rightarrow> []));
          attachments1 = (if truthy (imageKey message)
                          then [\<lparr>att_type = Image,
                                 key = (case imageKey message of Some k \<Rightarrow> k | None \<Rightarrow> [])\<rparr>]
                          else []);
          attachments2 = attachments1 @
                         (if truthy (fileKey message)
                          then [\<lparr>att_type = File,
                                 key = (case fileKey message of Some k \<Rightarrow> k | None \<Rightarrow> [])\<rparr>]
                          else []);
          context = \<lparr>ctx_chatId = chatId message, ctx_senderId = senderId message,
                     ctx_senderType = senderType message, ctx_timestamp = timestamp message,
                     ctx_messageId = messageId message\<rparr>;
          text = (case mentions message of
                    None \<Rightarrow> text
                  | Some ms \<Rightarrow>
                      if length ms > 0
                      then (let mentionText = join '' '' (map (\<lambda>m. ''@'' @ name m) ms)
                            in mentionText @ '' '' @ text)
                      else text)
      in \<lparr>msg_text = text,
          attachments = (if length attachments2 > 0 then Some attachments2 else None),
          context' = context\<rparr>)"

subsection \<open>Regular-expression replacement\<close>

text \<open>
  \<open>String.prototype.replace\<close> with a global regular expression scans the string from
  the left; at each position it tries the expression there, and on a match it emits the
  replacement and continues after the match, otherwise it keeps the character and moves
  on by one.  A matcher gives, for the rest of the string from the current position, the
  length of the match there and its replacement.
\<close>

type_synonym matcher = "string \<Rightarrow> (nat \<times> string) option"

function replace_all :: "matcher \<Rightarrow> string \<Rightarrow> string" where
  "replace_all m [] = (case m [] of Some (n, rep) \<Rightarrow> rep | None \<Rightarrow> [])"
| "replace_all m (c # cs) =
     (case m (c # cs) of
        Some (n, rep) \<Rightarrow>
          (if n = 0 then rep @ c # replace_all m cs
           else rep @ replace_all m (drop (n - 1) cs))
      | None \<Rightarrow> c # replace_all m cs)"
  by pat_completeness auto
termination
  by (relation "measure (\<lambda>(m, s). length s)") auto

definition isWordChar :: "char \<Rightarrow> bool" where
  "isWordChar c =
     (let n = (of_char c :: nat)
      in (of_char CHR ''a'' \<le> n \<and> n \<le> of_char CHR ''z'')
         \<or> (of_char CHR ''A'' \<le> n \<and> n \<le> of_char CHR ''Z'')
         \<or> (of_char CHR ''0'' \<le> n \<and> n \<le> of_char CHR ''9'')
         \<or> c = CHR ''_'')"

text \<open>The text before the first occurrence of \<open>pat\<close> and the text after it.\<close>

fun split_at_first :: "string \<Rightarrow> string \<Rightarrow> (string \<times> string) option" where
  "split_at_first pat [] = (if pat = [] then Some ([], []) else None)"
| "split_at_first pat (c # cs) =
     (if startsWith (c # cs) pat then Some ([], drop (length pat) (c # cs))
      else (case split_at_first pat cs of
              Some (before, after) \<Rightarrow> Some (c # before, after)
            | None \<Rightarrow> None))"

text \<open>
  A pattern \<open>open ([^x]+) close\<close>: the opening text, a non-empty longest run of
  characters other than \<open>x\<close>, and the closing text (which begins with \<open>x\<close> in every use,
  so no shorter run can match).  The result is the run and the length of the match.
\<close>

definition delimited :: "string \<Rightarrow> char \<Rightarrow> string \<Rightarrow> string \<Rightarrow> (string \<times> nat) option" where
  "delimited opening x closing s =
     (if startsWith s opening then
        (let rest = drop (length opening) s;
             run = takeWhile (\<lambda>c. c \<noteq> x) rest
         in if run \<noteq> [] \<and> startsWith (drop (length run) rest) closing
            then Some (run, length opening + length run + length closing)
            else None)
      else None)"

text \<open>
  \<open>/```(\w+)?\n([\s\S]*?)```/g\<close> with the replacement
  \<open>```${lang || ""}\n${code}\n```\<close>: three backquotes, the longest run of word
  characters (the language, possibly empty), a newline, and the shortest text followed by
  three backquotes.
\<close>

definition match_fence :: matcher where
  "match_fence s =
     (if startsWith s ''```'' then
        (let rest = drop 3 s;
             lang = takeWhile isWordChar rest;
             rest = drop (length lang) rest
         in if startsWith rest [CHR 0x0A] then
              (case split_at_first ''```'' (drop 1 rest) of
                 Some (code, after) \<Rightarrow>
                   Some (3 + length lang + 1 + length code + 3,
                         ''```'' @ lang @ [CHR 0x0A] @ code @ [CHR 0x0A] @ ''```'')
               | None \<Rightarrow> None)
            else None)
      else None)"

text \<open>\<open>/`([^`]+)`/g\<close> with \<open>`$1`\<close>.\<close>

definition match_inline_code :: matcher where
  "match_inline_code s =
     (case delimited ''`'' (CHR ''`'') ''`'' s of
        Some (g1, n) \<Rightarrow> Some (n, ''`'' @ g1 @ ''`'')
      | None \<Rightarrow> None)"

text \<open>\<open>/\*\*([^*]+)\*\*/g\<close> with \<open>**$1**\<close>.\<close>

definition match_bold :: matcher where
  "match_bold s =
     (case delimited ''**'' (CHR ''*'') ''**'' s of
        Some (g1, n) \<Rightarrow> Some (n, ''**'' @ g1 @ ''**'')
      | None \<Rightarrow> None)"

text \<open>\<open>/\*([^*]+)\*/g\<close> with \<open>*$1*\<close>.\<close>

definition match_italic :: matcher where
  "match_italic s =
     (case delimited ''*'' (CHR ''*'') ''*'' s of
        Some (g1, n) \<Rightarrow> Some (n, ''*'' @ g1 @ ''*'')
      | None \<Rightarrow> None)"

text \<open>\<open>/\[([^\]]+)\]\(([^)]+)\)/g\<close> with \<open>[$2]($1)\<close>.\<close>

definition match_link :: matcher where
  "match_link s =
     (case delimited ''['' (CHR '']'') ''](''  s of
        Some (g1, n1) \<Rightarrow>
          (case delimited [] (CHR '')'') '')'' (drop n1 s) of
             Some (g2, n2) \<Rightarrow> Some (n1 + n2, ''['' @ g2 @ ''](''  @ g1 @ '')'')
           | None \<Rightarrow> None)
      | None \<Rightarrow> None)"

definition convertMarkdownToLark :: "string \<Rightarrow> string" where
  "convertMarkdownToLark markdown =
     (let larkMarkdown = markdown;
          larkMarkdown = replace_all match_fence larkMarkdown;
          larkMarkdown = replace_all match_inline_code larkMarkdown;
          larkMarkdown = replace_all match_bold larkMarkdown;
          larkMarkdown = replace_all match_italic larkMarkdown;
          larkMarkdown = replace_all match_link larkMarkdown
      in larkMarkdown)"

subsection \<open>Cards\<close>

datatype card_element = Hr | Div string

record LarkCard =
  wide_screen_mode :: bool
  header_title :: string
  elements :: "card_element list"

text \<open>\<open>split("\n")\<close> and the test \<open>line.trim() === ""\<close> on 8-bit characters.\<close>

fun split_lines :: "string \<Rightarrow> string list" where
  "split_lines [] = [[]]"
| "split_lines (c # cs) =
     (if c = CHR 0x0A then [] # split_lines cs
      else (case split_lines cs of l # ls \<Rightarrow> (c # l) # ls | [] \<Rightarrow> [[c]]))"

definition isWhitespace :: "char \<Rightarrow> bool" where
  "isWhitespace c = (c \<in> set [CHR '' '', CHR 0x09, CHR 0x0A, CHR 0x0B, CHR 0x0C, CHR 0x0D])"

definition convertMarkdownToCard :: "string \<Rightarrow> LarkCard" where
  "convertMarkdownToCard markdown =
     (let lines = split_lines markdown
      in \<lparr>wide_screen_mode = True, header_title = ''Response'',
          elements =
            map (\<lambda>line.
                   if list_all isWhitespace line then Hr
                   else if startsWith line ''# '' then Div (drop 2 line)
                   else if startsWith line ''## '' then Div (drop 3 line)
                   else if startsWith line ''- '' \<or> startsWith line ''* '' then Div (drop 2 line)
                   else Div line)
                lines\<rparr>)"

datatype response_format = FormatText | FormatMarkdown | FormatCard

record FormattedResponseForLark =
  resp_text :: string
  resp_format :: response_format
  resp_card :: "LarkCard option"

definition transformMoltbotToLark :: "string \<Rightarrow> response_format \<Rightarrow> FormattedResponseForLark" where
  "transformMoltbotToLark response fmt =
     (if fmt = FormatText then \<lparr>resp_text = response, resp_format = FormatText, resp_card = None\<rparr>
      else if fmt = FormatMarkdown then
        (let larkMarkdown = convertMarkdownToLark response
         in \<lparr>resp_text = larkMarkdown, resp_format = FormatMarkdown, resp_card = None\<rparr>)
      else if fmt = FormatCard then
        (let card = convertMarkdownToCard response
         in \<lparr>resp_text = [], resp_format = FormatCard, resp_card = Some card\<rparr>)
      else \<lparr>resp_text = response, resp_format = FormatText, resp_card = None\<rparr>)"

section \<open>Sample inputs\<close>

text \<open>
  Two sample operations whose world is the number of calls made so far: one that always
  times out, and one that times out twice and then fails with a permanent error.
\<close>

definition always_timeout :: "nat \<Rightarrow> (error + unit) \<times> nat" where
  "always_timeout k = (Inl (PlainError ''Request timeout''), Suc k)"

definition timeout_then_invalid :: "nat \<Rightarrow> (error + unit) \<times> nat" where
  "timeout_then_invalid k =
     (if k < 2 then Inl (PlainError ''socket timeout'') else Inl (AppError ''invalid payload'' False),
      Suc k)"

definition default_config :: RetryConfig where
  "default_config = \<lparr>maxAttempts = None, retryableErrors = None\<rparr>"

text \<open>
  A manager keeping two messages per chat for 24 hours, after two messages in chat
  \<open>chat\<close>, and a third message.
\<close>

definition sample_manager :: ConversationContextManager where
  "sample_manager =
     addMessages (new_ConversationContextManager 2 24) ''chat''
       [(0, \<lparr>role = User, content = ''one''\<rparr>), (1000, \<lparr>role = Assistant, content = ''two''\<rparr>)]"

definition third_message :: MoltbotMessage where
  "third_message = \<lparr>role = User, content = ''three''\<rparr>"

text \<open>
  Sample callbacks whose world counts the calls made: one that always succeeds, one that
  times out on every even-numbered call, and one that rejects the final update with a
  permanent error.  A sample stream of four fragments with their arrival times, and the
  options used by \<open>src/index.ts\<close>.
\<close>

definition emit_ok :: "nat callback" where
  "emit_ok p cid c f k = (Inr (), Suc k)"

definition emit_flaky :: "nat callback" where
  "emit_flaky p cid c f k = (if even k then Inl (PlainError ''timeout'') else Inr (), Suc k)"

definition emit_reject_final :: "nat callback" where
  "emit_reject_final p cid c f k = (if f then Inl (AppError ''rejected'' False) else Inr (), Suc k)"

definition sample_stream :: MoltbotStreamResponse where
  "sample_stream =
     \<lparr>textStream = [(''Hel'', 1700000000000), (''lo'', 1700000000100),
                    ('', wor'', 1700000001200), (''ld'', 1700000001300)],
      textStream_error = None, finishReason = Inr (Some ''stop'')\<rparr>"

definition sample_options :: StreamProcessingOptions where
  "sample_options =
     \<lparr>chunkThreshold = Some 100, timeThreshold = Some 1000, sendPartialUpdates = Some True\<rparr>"

text \<open>A plain-text message \<open>hi\<close> that mentions Ada and Grace.\<close>

definition sample_message :: ParsedLarkMessage where
  "sample_message =
     \<lparr>messageId = ''om_1'', chatId = ''oc_1'', senderId = ''ou_1'', senderType = ''user'',
      messageType = TEXT, textContent = Some ''hi'', postContent = None, imageKey = None,
      fileKey = None,
      mentions = Some [\<lparr>mention_id = ''ou_2'', name = ''Ada''\<rparr>,
                       \<lparr>mention_id = ''ou_3'', name = ''Grace''\<rparr>],
      timestamp = 1700000000000\<rparr>"

section \<open>Properties of retry\<close>

text \<open>
  The loop started at attempt number \<open>attempt\<close> on a logged operation: what it appends
  to the log, and how its result relates to the appended outcomes.
\<close>

lemma retry_loop_logged_as:
  assumes "retry_loop cfg (logged_as mark fn) attempt le (log0, w) = (res, (log, w'))"
  shows "\<exists>new. log = log0 @ map mark new \<and> retry_outcome cfg attempt le res new"
  using assms
proof (induction cfg "logged_as mark fn" attempt le "(log0, w)" arbitrary: log0 w
       rule: retry_loop.induct)
  case (1 cfg attempt lastError log0 w)
  note run = "1.prems"[unfolded retry_loop.simps[of cfg "logged_as mark fn" attempt]]
  show ?case
  proof (cases "attempt \<le> req_maxAttempts cfg")
    case False
    with run have "log = log0 @ map mark []"
      and "res = Inl (case lastError of None \<Rightarrow> ThrownUndefined | Some e \<Rightarrow> Rethrown e)"
      by auto
    then show ?thesis using False
      by (intro exI[of _ "[]"]) (auto simp: retry_outcome_def split: option.splits)
  next
    case True
    obtain r w1 where fw: "fn w = (r, w1)" by (cases "fn w")
    have lg: "logged_as mark fn (log0, w) = (r, (log0 @ [mark r], w1))"
      using fw by (simp add: logged_as_def)
    show ?thesis
    proof (cases r)
      case (Inr v)
      with run True lg have "res = Inr v" "log = log0 @ map mark [Inr v]"
        by auto
      then show ?thesis using True
        by (intro exI[of _ "[Inr v]"]) (auto simp: retry_outcome_def)
    next
      case (Inl e)
      show ?thesis
      proof (cases "\<not> req_retryableErrors cfg e \<or> attempt \<ge> req_maxAttempts cfg")
        case stop: True
        with run True lg Inl have "log = log0 @ map mark [Inl e]"
          and "res = (if attempt \<ge> req_maxAttempts cfg
                      then Inl (RetryExhaustedError (req_maxAttempts cfg) e)
                      else Inl (Rethrown e))"
          by (auto split: if_splits)
        then show ?thesis using True stop
          by (intro exI[of _ "[Inl e]"]) (auto simp: retry_outcome_def split: if_splits)
      next
        case go: False
        from run True lg Inl go
        have rec: "retry_loop cfg (logged_as mark fn) (attempt + 1) (Some e) (log0 @ [mark (Inl e)], w1)
                     = (res, (log, w'))"
          by (simp add: Let_def)
        have go': "\<not> (\<not> req_retryableErrors cfg e \<or> req_maxAttempts cfg \<le> attempt)"
          using go by simp
        from lg Inl have lg': "(Inl e, log0 @ [mark (Inl e)], w1) = logged_as mark fn (log0, w)"
          by simp
        from "1.hyps"[OF True lg' refl refl go' rec]
        obtain new where n: "log = (log0 @ [mark (Inl e)]) @ map mark new"
          and ro: "retry_outcome cfg (attempt + 1) (Some e) res new"
          by blast
        have "retry_outcome cfg attempt lastError res (Inl e # new)"
          using ro go True
          by (auto simp: retry_outcome_def split: sum.splits raised.splits)
        with n show ?thesis
          by (intro exI[of _ "Inl e # new"]) simp
      qed
    qed
  qed
qed

lemma retry_loop_logged:
  assumes "retry_loop cfg (logged fn) attempt le (log0, w) = (res, (log, w'))"
  shows "\<exists>new. log = log0 @ new \<and> retry_outcome cfg attempt le res new"
  using retry_loop_logged_as[of cfg "\<lambda>r. r" fn attempt le log0 w res log w'] assms
  by (simp add: logged_def)

text \<open>An operation whose every invocation fails with a retryable error uses up all attempts.\<close>

lemma retry_loop_always_failing:
  assumes fails: "\<forall>w. \<exists>e w'. fn w = (Inl e, w') \<and> req_retryableErrors cfg e"
  shows "attempt \<le> req_maxAttempts cfg \<Longrightarrow>
         \<exists>e new w'. retry_loop cfg (logged fn) attempt le (log0, w)
                       = (Inl (RetryExhaustedError (req_maxAttempts cfg) e), (log0 @ new, w'))
                   \<and> int (length new) = req_maxAttempts cfg + 1 - attempt \<and> last new = Inl e"
proof (induction "nat (req_maxAttempts cfg - attempt)" arbitrary: attempt le log0 w)
  case 0
  then have eq: "attempt = req_maxAttempts cfg" by simp
  from fails obtain e w1 where fw: "fn w = (Inl e, w1)" by blast
  have "retry_loop cfg (logged fn) attempt le (log0, w)
          = (Inl (RetryExhaustedError (req_maxAttempts cfg) e), (log0 @ [Inl e], w1))"
    using eq fw by (subst retry_loop.simps) (simp add: logged_def logged_as_def)
  then show ?case using eq by (intro exI[of _ e] exI[of _ "[Inl e]"] exI[of _ w1]) simp
next
  case (Suc k)
  then have lt: "attempt < req_maxAttempts cfg" by simp
  from fails obtain e w1 where fw: "fn w = (Inl e, w1)" and re: "req_retryableErrors cfg e"
    by blast
  have step: "retry_loop cfg (logged fn) attempt le (log0, w)
          = retry_loop cfg (logged fn) (attempt + 1) (Some e) (log0 @ [Inl e], w1)"
    using lt fw re by (subst retry_loop.simps) (simp add: logged_def logged_as_def)
  have "k = nat (req_maxAttempts cfg - (attempt + 1))" using Suc.hyps(2) by simp
  from Suc.hyps(1)[OF this, of "Some e" "log0 @ [Inl e]" w1] lt
  obtain e' new w' where
    r: "retry_loop cfg (logged fn) (attempt + 1) (Some e) (log0 @ [Inl e], w1)
          = (Inl (RetryExhaustedError (req_maxAttempts cfg) e'), ((log0 @ [Inl e]) @ new, w'))"
    and l: "int (length new) = req_maxAttempts cfg + 1 - (attempt + 1)" and la: "last new = Inl e'"
    by auto
  from l lt have ne: "new \<noteq> []" by auto
  show ?case
    using step r l la ne
    by (intro exI[of _ e'] exI[of _ "Inl e # new"] exI[of _ w']) simp
qed

lemma retry_timeout_then_invalid:
  "retry (logged timeout_then_invalid) default_config ([], 0)
     = (Inl (RetryExhaustedError 3 (AppError ''invalid payload'' False)),
        ([Inl (PlainError ''socket timeout''), Inl (PlainError ''socket timeout''),
          Inl (AppError ''invalid payload'' False)], 3))"
  by code_simp

lemma retry_always_timeout:
  "retry (logged always_timeout) default_config ([], 0)
     = (Inl (RetryExhaustedError 3 (PlainError ''Request timeout'')),
        ([Inl (PlainError ''Request timeout''), Inl (PlainError ''Request timeout''),
          Inl (PlainError ''Request timeout'')], 3))"
  by code_simp

text \<open>
  Claim C1 (as amended).  Whenever \<open>retry\<close> ends with an error, every invocation but the
  last failed with a retryable error, and:
  it raises \<open>RetryExhaustedError\<close> only with \<open>attempts = maxAttempts\<close>, after exactly
  \<open>maxAttempts\<close> invocations, the last of which failed with the error it carries
  (retryable or not);
  it re-raises an error of the operation unchanged only when that error is not retryable
  and was the failure of the last invocation made, fewer than \<open>maxAttempts\<close> invocations
  having been made;
  it raises \<open>undefined\<close> only when \<open>maxAttempts < 1\<close>, with no invocation at all.
\<close>

theorem retry_failure_characterised:
  fixes fn :: "'w \<Rightarrow> (error + 'a) \<times> 'w"
  assumes "retry (logged fn) config ([], w) = (Inl err, (log, w'))"
  shows "(\<forall>x \<in> set (butlast log). \<exists>e. x = Inl e \<and> req_retryableErrors (finalConfig config) e)
       \<and> (case err of
            RetryExhaustedError n e \<Rightarrow>
              n = req_maxAttempts (finalConfig config) \<and> log \<noteq> [] \<and> last log = Inl e
              \<and> int (length log) = req_maxAttempts (finalConfig config)
          | Rethrown e \<Rightarrow>
              log \<noteq> [] \<and> last log = Inl e \<and> \<not> req_retryableErrors (finalConfig config) e
              \<and> int (length log) < req_maxAttempts (finalConfig config)
          | ThrownUndefined \<Rightarrow> log = [] \<and> req_maxAttempts (finalConfig config) < 1)"
proof -
  from assms have
    "retry_loop (finalConfig config) (logged fn) 1 None ([], w) = (Inl err, (log, w'))"
    by (simp add: retry_def)
  from retry_loop_logged[OF this] show ?thesis
    by (cases err) (auto simp: retry_outcome_def)
qed

theorem retry_failure_characterised_witness:
  "retry (logged timeout_then_invalid) default_config ([], 0)
     = (Inl (RetryExhaustedError 3 (AppError ''invalid payload'' False)),
        ([Inl (PlainError ''socket timeout''), Inl (PlainError ''socket timeout''),
          Inl (AppError ''invalid payload'' False)], 3))
   \<and> req_maxAttempts (finalConfig default_config) = 3
   \<and> req_retryableErrors (finalConfig default_config) (PlainError ''socket timeout'')"
proof -
  note h = retry_timeout_then_invalid
  from retry_failure_characterised[OF h] show ?thesis
    using h by simp
qed

text \<open>
  Claim C1 as stated fails: with the default policy, an operation that times out twice
  and then fails with a non-retryable error does not get that error back; \<open>retry\<close>
  raises \<open>RetryExhaustedError\<close> although the last failure was not retryable.
\<close>

theorem retry_last_attempt_not_retryable_counterexample:
  "fst (retry (logged timeout_then_invalid) default_config ([], 0))
     = Inl (RetryExhaustedError 3 (AppError ''invalid payload'' False))
   \<and> \<not> req_retryableErrors (finalConfig default_config) (AppError ''invalid payload'' False)
   \<and> fst (retry (logged timeout_then_invalid) default_config ([], 0))
       \<noteq> Inl (Rethrown (AppError ''invalid payload'' False))"
proof -
  have "\<not> req_retryableErrors (finalConfig default_config) (AppError ''invalid payload'' False)"
    by (simp add: finalConfig_def default_config_def DEFAULT_RETRY_CONFIG_def)
  then show ?thesis
    by (simp add: retry_timeout_then_invalid)
qed

text \<open>
  Claim C8.  If every invocation of the operation fails with a retryable error and
  \<open>maxAttempts\<close> is 3, then \<open>retry\<close> invokes the operation exactly 3 times and raises
  \<open>RetryExhaustedError\<close> with \<open>attempts = 3\<close> and the last error.  In general, for any
  operation and policy, the number of invocations is at most \<open>maxAttempts\<close>.
\<close>

theorem retry_exhausts_three_attempts:
  fixes fn :: "'w \<Rightarrow> (error + 'a) \<times> 'w"
  assumes "req_maxAttempts (finalConfig config) = 3"
    and "\<forall>w. \<exists>e w'. fn w = (Inl e, w') \<and> req_retryableErrors (finalConfig config) e"
  shows "(\<exists>e log w'. retry (logged fn) config ([], w) = (Inl (RetryExhaustedError 3 e), (log, w'))
            \<and> length log = 3 \<and> last log = Inl e)
       \<and> (\<forall>(g :: 'w \<Rightarrow> (error + 'a) \<times> 'w) cfg w0 res log w1.
            retry (logged g) cfg ([], w0) = (res, (log, w1))
            \<longrightarrow> int (length log) \<le> max 0 (req_maxAttempts (finalConfig cfg)))"
proof
  have "(1::int) \<le> req_maxAttempts (finalConfig config)" using assms(1) by simp
  from retry_loop_always_failing[OF assms(2) this, of None "[]" w]
  show "\<exists>e log w'. retry (logged fn) config ([], w) = (Inl (RetryExhaustedError 3 e), (log, w'))
            \<and> length log = 3 \<and> last log = Inl e"
    using assms(1) by (auto simp: retry_def)
next
  show "\<forall>(g :: 'w \<Rightarrow> (error + 'a) \<times> 'w) cfg w0 res log w1.
            retry (logged g) cfg ([], w0) = (res, (log, w1))
            \<longrightarrow> int (length log) \<le> max 0 (req_maxAttempts (finalConfig cfg))"
  proof (intro allI impI)
    fix g :: "'w \<Rightarrow> (error + 'a) \<times> 'w" and cfg w0 res log w1
    assume "retry (logged g) cfg ([], w0) = (res, (log, w1))"
    then have "retry_loop (finalConfig cfg) (logged g) 1 None ([], w0) = (res, (log, w1))"
      by (simp add: retry_def)
    from retry_loop_logged[OF this] show "int (length log) \<le> max 0 (req_maxAttempts (finalConfig cfg))"
      by (auto simp: retry_outcome_def)
  qed
qed

theorem retry_exhausts_three_attempts_witness:
  "req_maxAttempts (finalConfig default_config) = 3
   \<and> req_retryableErrors (finalConfig default_config) (PlainError ''Request timeout'')
   \<and> retry (logged always_timeout) default_config ([], 0)
       = (Inl (RetryExhaustedError 3 (PlainError ''Request timeout'')),
          ([Inl (PlainError ''Request timeout''), Inl (PlainError ''Request timeout''),
            Inl (PlainError ''Request timeout'')], 3))"
proof -
  have m: "req_maxAttempts (finalConfig default_config) = 3"
    by (simp add: finalConfig_def default_config_def DEFAULT_RETRY_CONFIG_def)
  have t: "req_retryableErrors (finalConfig default_config) (PlainError ''Request timeout'')"
    by code_simp
  have f: "\<forall>w. \<exists>e w'. always_timeout w = (Inl e, w')
             \<and> req_retryableErrors (finalConfig default_config) e"
    using t by (simp add: always_timeout_def)
  from retry_exhausts_three_attempts[OF m f, of 0] show ?thesis
    using m t retry_always_timeout by simp
qed

section \<open>Properties of the conversation context manager\<close>

lemma addMessage_params [simp]:
  "maxHistoryLength (addMessage mgr now cid m) = maxHistoryLength mgr"
  "maxAge (addMessage mgr now cid m) = maxAge mgr"
  by (simp_all add: addMessage_def Let_def)

lemma addMessage_stored:
  "\<exists>c'. conversations (addMessage mgr now cid m) cid = Some c'
        \<and> lastActivity c' = now
        \<and> messages c' = drop (nat (int (length (history mgr cid)) + 1 - maxHistoryLength mgr))
                              (history mgr cid @ [m])"
  by (auto simp: addMessage_def history_def Let_def add.commute split: option.splits)

lemma addMessage_history:
  "history (addMessage mgr now cid m) cid
     = drop (nat (int (length (history mgr cid)) + 1 - maxHistoryLength mgr)) (history mgr cid @ [m])"
  using addMessage_stored[of mgr now cid m] by (auto simp: history_def)

lemma addMessages_params [simp]:
  "maxHistoryLength (addMessages mgr cid appends) = maxHistoryLength mgr"
  "maxAge (addMessages mgr cid appends) = maxAge mgr"
  by (induction mgr cid appends rule: addMessages.induct) simp_all


lemma drop_trim_append:
  "drop (length (drop (length xs - M) xs) + length R - M) (drop (length xs - M) xs @ R)
     = drop (length xs + length R - M) (xs @ R)"
proof (cases "length xs \<le> M")
  case True
  then show ?thesis by simp
next
  case False
  have a: "drop (length xs - M) xs @ R = drop (length xs - M) (xs @ R)"
    by simp
  have b: "length (drop (length xs - M) xs) + length R - M = length R"
    using False by simp
  have c: "length R + (length xs - M) = length xs + length R - M"
    using False by simp
  show ?thesis
    unfolding a b drop_drop c ..
qed

lemma addMessages_history:
  assumes "0 \<le> maxHistoryLength mgr" and "appends \<noteq> []"
  shows "history (addMessages mgr cid appends) cid
     = drop (length (history mgr cid) + length appends - nat (maxHistoryLength mgr))
            (history mgr cid @ map snd appends)"
  using assms
proof (induction mgr cid appends rule: addMessages.induct)
  case (1 mgr cid)
  then show ?case by simp
next
  case (2 mgr cid now message rest)
  have tr: "nat (int (length (history mgr cid)) + 1 - maxHistoryLength mgr)
          = Suc (length (history mgr cid)) - nat (maxHistoryLength mgr)"
    using "2.prems"(1) by linarith
  show ?case
  proof (cases rest)
    case Nil
    then show ?thesis by (simp add: addMessage_history tr)
  next
    case (Cons a list)
    with 2 have "history (addMessages (addMessage mgr now cid message) cid rest) cid =
      drop (length (history (addMessage mgr now cid message) cid) + length rest -
       nat (maxHistoryLength mgr))
       (history (addMessage mgr now cid message) cid @ map snd rest)"
      by simp
    then show ?thesis
      using drop_trim_append[of "history mgr cid @ [message]" "nat (maxHistoryLength mgr)" "map snd rest"]
      by (simp add: addMessage_history tr)
  qed
qed

lemma addMessages_last:
  "appends \<noteq> [] \<Longrightarrow> \<exists>c. conversations (addMessages mgr cid appends) cid = Some c
      \<and> lastActivity c = fst (last appends)"
proof (induction mgr cid appends rule: addMessages.induct)
  case (1 mgr cid)
  then show ?case by simp
next
  case (2 mgr cid now message rest)
  then show ?case
    using addMessage_stored[of mgr now cid message]
    by (cases rest) auto
qed


lemma sample_manager_chat:
  "conversations sample_manager ''chat''
     = Some \<lparr>ConversationContext.chatId = ''chat'',
             messages = [\<lparr>role = User, content = ''one''\<rparr>, \<lparr>role = Assistant, content = ''two''\<rparr>],
             lastActivity = 1000, messageCount = 2\<rparr>"
  "maxHistoryLength sample_manager = 2"
  "maxAge sample_manager = 86400000"
  by (simp_all add: sample_manager_def new_ConversationContextManager_def addMessage_def)

text \<open>
  Claim C6.  With a non-negative \<open>maxHistoryLength\<close>, after any non-empty sequence of
  appends to one chat the stored history has at most \<open>maxHistoryLength\<close> entries and is
  the tail of what was stored before followed by the appended messages (so the oldest
  entries are the ones dropped); after more than \<open>maxHistoryLength\<close> appends, a
  \<open>getContext\<close> made no later than \<open>maxAge\<close> after the last append returns exactly
  the last \<open>maxHistoryLength\<close> appended messages, in order.
\<close>

theorem history_bounded_fifo:
  assumes "0 \<le> maxHistoryLength mgr"
  shows "(appends \<noteq> [] \<longrightarrow>
            (\<exists>c. conversations (addMessages mgr cid appends) cid = Some c
               \<and> int (length (messages c)) \<le> maxHistoryLength mgr
               \<and> messages c = drop (length (history mgr cid) + length appends
                                       - nat (maxHistoryLength mgr))
                                    (history mgr cid @ map snd appends)))
       \<and> (int (length appends) > maxHistoryLength mgr \<and> now - fst (last appends) \<le> maxAge mgr \<longrightarrow>
            fst (getContext (addMessages mgr cid appends) now cid)
              = drop (length appends - nat (maxHistoryLength mgr)) (map snd appends)
            \<and> int (length (fst (getContext (addMessages mgr cid appends) now cid)))
                = maxHistoryLength mgr)"
proof (intro conjI impI)
  assume ne: "appends \<noteq> []"
  from addMessages_last[OF ne, of mgr cid] obtain c where
    c: "conversations (addMessages mgr cid appends) cid = Some c" by blast
  then have h: "messages c = history (addMessages mgr cid appends) cid"
    by (simp add: history_def)
  have "messages c = drop (length (history mgr cid) + length appends - nat (maxHistoryLength mgr))
                          (history mgr cid @ map snd appends)"
    unfolding h by (rule addMessages_history[OF assms ne])
  moreover from this have "int (length (messages c)) \<le> maxHistoryLength mgr"
    using assms ne by (cases appends) auto
  ultimately show "\<exists>c. conversations (addMessages mgr cid appends) cid = Some c
               \<and> int (length (messages c)) \<le> maxHistoryLength mgr
               \<and> messages c = drop (length (history mgr cid) + length appends
                                       - nat (maxHistoryLength mgr))
                                    (history mgr cid @ map snd appends)"
    using c by blast
next
  assume a: "int (length appends) > maxHistoryLength mgr \<and> now - fst (last appends) \<le> maxAge mgr"
  with assms have ne: "appends \<noteq> []" by auto
  from addMessages_last[OF ne, of mgr cid] obtain c where
    c: "conversations (addMessages mgr cid appends) cid = Some c"
    and la: "lastActivity c = fst (last appends)" by blast
  then have h: "messages c = history (addMessages mgr cid appends) cid"
    by (simp add: history_def)
  have g: "fst (getContext (addMessages mgr cid appends) now cid) = messages c"
    using c la a by (simp add: getContext_def)
  have m: "messages c = drop (length (history mgr cid) + length appends - nat (maxHistoryLength mgr))
                          (history mgr cid @ map snd appends)"
    unfolding h by (rule addMessages_history[OF assms ne])
  have ge: "nat (maxHistoryLength mgr) \<le> length appends" using a assms by linarith
  have e: "messages c = drop (length appends - nat (maxHistoryLength mgr)) (map snd appends)"
    unfolding m using ge by simp
  show "fst (getContext (addMessages mgr cid appends) now cid)
              = drop (length appends - nat (maxHistoryLength mgr)) (map snd appends)"
    using g e by simp
  show "int (length (fst (getContext (addMessages mgr cid appends) now cid)))
                = maxHistoryLength mgr"
    unfolding g e using ge assms by simp
qed

theorem history_bounded_fifo_witness:
  "0 \<le> maxHistoryLength (new_ConversationContextManager 2 24)
   \<and> int (length [(0, \<lparr>role = User, content = ''one''\<rparr>),
                   (1000, \<lparr>role = Assistant, content = ''two''\<rparr>),
                   (2000::int, third_message)])
       > maxHistoryLength (new_ConversationContextManager 2 24)
   \<and> 3000 - 2000 \<le> maxAge (new_ConversationContextManager 2 24)
   \<and> fst (getContext
            (addMessages (new_ConversationContextManager 2 24) ''chat''
               [(0, \<lparr>role = User, content = ''one''\<rparr>),
                (1000, \<lparr>role = Assistant, content = ''two''\<rparr>),
                (2000, third_message)])
            3000 ''chat'')
       = [\<lparr>role = Assistant, content = ''two''\<rparr>, third_message]"
proof -
  have h: "0 \<le> maxHistoryLength (new_ConversationContextManager 2 24)"
    by (simp add: new_ConversationContextManager_def)
  from history_bounded_fifo[OF h,
      where appends = "[(0, \<lparr>role = User, content = ''one''\<rparr>),
           (1000, \<lparr>role = Assistant, content = ''two''\<rparr>), (2000, third_message)]"
        and now = 3000 and cid = "''chat''"]
  show ?thesis
    by (simp add: new_ConversationContextManager_def)
qed

text \<open>
  Claim C7.  \<open>getContext\<close> returns the stored messages, leaving the manager as it is,
  when the context exists and \<open>now - lastActivity \<le> maxAge\<close>; in every other case it
  returns the empty list; when the context exists but has expired, the manager it leaves
  is the old one with that context deleted; when there is no context the manager is
  unchanged; and every context present afterwards is a context of before, unchanged
  (so no \<open>lastActivity\<close> is modified).
\<close>

theorem getContext_characterised:
  "(\<forall>c. conversations mgr cid = Some c \<and> now - lastActivity c \<le> maxAge mgr
        \<longrightarrow> getContext mgr now cid = (messages c, mgr))
   \<and> (\<not> (\<exists>c. conversations mgr cid = Some c \<and> now - lastActivity c \<le> maxAge mgr)
        \<longrightarrow> fst (getContext mgr now cid) = [])
   \<and> (\<forall>c. conversations mgr cid = Some c \<and> \<not> now - lastActivity c \<le> maxAge mgr
        \<longrightarrow> snd (getContext mgr now cid) = mgr\<lparr>conversations := (conversations mgr)(cid := None)\<rparr>
            \<and> \<not> hasConversation (snd (getContext mgr now cid)) cid)
   \<and> (conversations mgr cid = None \<longrightarrow> snd (getContext mgr now cid) = mgr)
   \<and> (\<forall>k c'. conversations (snd (getContext mgr now cid)) k = Some c'
        \<longrightarrow> conversations mgr k = Some c')"
  by (auto simp: getContext_def hasConversation_def Let_def split: option.splits if_splits)

theorem getContext_characterised_witness:
  "conversations sample_manager ''chat'' \<noteq> None
   \<and> 2000 - 1000 \<le> maxAge sample_manager
   \<and> fst (getContext sample_manager 2000 ''chat'')
       = [\<lparr>role = User, content = ''one''\<rparr>, \<lparr>role = Assistant, content = ''two''\<rparr>]
   \<and> snd (getContext sample_manager 2000 ''chat'') = sample_manager
   \<and> \<not> 90000000 - 1000 \<le> maxAge sample_manager
   \<and> fst (getContext sample_manager 90000000 ''chat'') = []
   \<and> \<not> hasConversation (snd (getContext sample_manager 90000000 ''chat'')) ''chat''
   \<and> conversations sample_manager ''elsewhere'' = None
   \<and> getContext sample_manager 2000 ''elsewhere'' = ([], sample_manager)"
proof -
  let ?c = "\<lparr>ConversationContext.chatId = ''chat'',
             messages = [\<lparr>role = User, content = ''one''\<rparr>,
                         \<lparr>role = Assistant, content = ''two''\<rparr>],
             lastActivity = 1000, messageCount = 2\<rparr>"
  have c: "conversations sample_manager ''chat'' = Some ?c"
    by (rule sample_manager_chat(1))
  have age: "maxAge sample_manager = 86400000"
    by (rule sample_manager_chat(3))
  have fresh: "2000 - lastActivity ?c \<le> maxAge sample_manager"
    by (simp add: age)
  have expired: "\<not> 90000000 - lastActivity ?c \<le> maxAge sample_manager"
    by (simp add: age)
  have none: "conversations sample_manager ''elsewhere'' = None"
    by (simp add: sample_manager_def new_ConversationContextManager_def addMessage_def)
  from getContext_characterised[where mgr = sample_manager and cid = "''chat''" and now = 2000]
  have "\<forall>c. conversations sample_manager ''chat'' = Some c
              \<and> 2000 - lastActivity c \<le> maxAge sample_manager
          \<longrightarrow> getContext sample_manager 2000 ''chat'' = (messages c, sample_manager)"
    by (rule conjunct1)
  with c fresh have 1: "getContext sample_manager 2000 ''chat'' = (messages ?c, sample_manager)"
    by blast
  from getContext_characterised[where mgr = sample_manager and cid = "''chat''" and now = 90000000]
  have "(\<not> (\<exists>c. conversations sample_manager ''chat'' = Some c
                \<and> 90000000 - lastActivity c \<le> maxAge sample_manager)
          \<longrightarrow> fst (getContext sample_manager 90000000 ''chat'') = [])"
    and "\<forall>c. conversations sample_manager ''chat'' = Some c
              \<and> \<not> 90000000 - lastActivity c \<le> maxAge sample_manager
          \<longrightarrow> \<not> hasConversation (snd (getContext sample_manager 90000000 ''chat'')) ''chat''"
    by blast+
  with c expired have 2: "fst (getContext sample_manager 90000000 ''chat'') = []"
    "\<not> hasConversation (snd (getContext sample_manager 90000000 ''chat'')) ''chat''"
    by auto
  from getContext_characterised[where mgr = sample_manager and cid = "''elsewhere''" and now = 2000]
  have "(\<not> (\<exists>c. conversations sample_manager ''elsewhere'' = Some c
                \<and> 2000 - lastActivity c \<le> maxAge sample_manager)
          \<longrightarrow> fst (getContext sample_manager 2000 ''elsewhere'') = [])"
    and "conversations sample_manager ''elsewhere'' = None
          \<longrightarrow> snd (getContext sample_manager 2000 ''elsewhere'') = sample_manager"
    by blast+
  with none have 3: "getContext sample_manager 2000 ''elsewhere'' = ([], sample_manager)"
    by (simp add: prod_eq_iff)
  show ?thesis
    using 1 2 3 c none by (simp add: age)
qed

text \<open>
  Claim C10 (as amended).  \<open>addMessage\<close> on a context that is present and already older
  than \<open>maxAge\<close> makes no expiry check: the context stays, \<open>lastActivity\<close> becomes
  \<open>now\<close>, and the history becomes the old messages followed by the new one, cut from
  the front to \<open>maxHistoryLength\<close> as for any other append (nothing is cut when fewer
  than \<open>maxHistoryLength\<close> messages were stored); a \<open>getContext\<close> no later than
  \<open>maxAge\<close> after that append returns this history.
\<close>

theorem addMessage_ignores_expiry:
  assumes "conversations mgr cid = Some c" and "now - lastActivity c > maxAge mgr"
  shows "\<exists>c'. conversations (addMessage mgr now cid m) cid = Some c'
      \<and> lastActivity c' = now
      \<and> messages c' = drop (nat (int (length (messages c)) + 1 - maxHistoryLength mgr))
                            (messages c @ [m])
      \<and> (int (length (messages c)) < maxHistoryLength mgr \<longrightarrow> messages c' = messages c @ [m])
      \<and> (now' - now \<le> maxAge mgr \<longrightarrow>
            getContext (addMessage mgr now cid m) now' cid = (messages c', addMessage mgr now cid m))"
proof -
  from addMessage_stored[of mgr now cid m] assms(1) obtain c' where
    c': "conversations (addMessage mgr now cid m) cid = Some c'" "lastActivity c' = now"
    "messages c' = drop (nat (int (length (messages c)) + 1 - maxHistoryLength mgr))
                            (messages c @ [m])"
    by (auto simp: history_def)
  then show ?thesis
    by (auto simp: getContext_def)
qed

theorem addMessage_ignores_expiry_witness:
  "conversations sample_manager ''chat'' \<noteq> None
   \<and> 90000000 - 1000 > maxAge sample_manager
   \<and> 90000500 - 90000000 \<le> maxAge sample_manager
   \<and> fst (getContext (addMessage sample_manager 90000000 ''chat'' third_message) 90000500 ''chat'')
       = [\<lparr>role = Assistant, content = ''two''\<rparr>, third_message]"
proof -
  note s = sample_manager_chat
  have e: "90000000 - lastActivity
             \<lparr>ConversationContext.chatId = ''chat'',
              messages = [\<lparr>role = User, content = ''one''\<rparr>, \<lparr>role = Assistant, content = ''two''\<rparr>],
              lastActivity = 1000, messageCount = 2\<rparr> > maxAge sample_manager"
    by (simp add: s)
  from addMessage_ignores_expiry[OF s(1) e, where now' = 90000500 and m = third_message]
  show ?thesis
    using s by auto
qed

text \<open>
  Claim C10 as stated fails where the history is full: appending to the expired context
  of \<open>sample_manager\<close>, which holds \<open>maxHistoryLength = 2\<close> messages, drops the oldest
  of them, so not all existing messages are preserved.
\<close>

theorem addMessage_expired_full_history_counterexample:
  "history sample_manager ''chat''
     = [\<lparr>role = User, content = ''one''\<rparr>, \<lparr>role = Assistant, content = ''two''\<rparr>]
   \<and> 90000000 - 1000 > maxAge sample_manager
   \<and> history (addMessage sample_manager 90000000 ''chat'' third_message) ''chat''
       = [\<lparr>role = Assistant, content = ''two''\<rparr>, third_message]
   \<and> history (addMessage sample_manager 90000000 ''chat'' third_message) ''chat''
       \<noteq> history sample_manager ''chat'' @ [third_message]"
proof -
  have h: "history sample_manager ''chat''
     = [\<lparr>role = User, content = ''one''\<rparr>, \<lparr>role = Assistant, content = ''two''\<rparr>]"
    by (simp add: history_def sample_manager_chat)
  show ?thesis
    by (simp add: addMessage_history h sample_manager_chat(2,3))
qed

section \<open>Properties of the stream processor\<close>

lemma sendPartialUpdate_logged:
  assumes "sendPartialUpdate (logged_emit emit) p c f (log0, w) = (res, p', (log, w'))"
  shows "\<exists>rs. rs \<noteq> [] \<and> length rs \<le> 3 \<and> log = log0 @ calls_of c f (isComplete p) rs
           \<and> (\<forall>r \<in> set (butlast rs). r \<noteq> Inr ())
           \<and> (case res of
                 Inr u \<Rightarrow> last rs = Inr () \<and> p' = (if f then p\<lparr>buffer := []\<rparr> else p)
               | Inl err \<Rightarrow> last rs \<noteq> Inr () \<and> p' = p)"
proof -
  define cfg where "cfg = finalConfig \<lparr>maxAttempts = Some 3, retryableErrors = None\<rparr>"
  define mark where "mark = (\<lambda>r. \<lparr>call_content = c, call_isFinal = f,
                                 call_whileComplete = isComplete p, call_outcome = r\<rparr>)"
  have m: "req_maxAttempts cfg = 3" by (simp add: cfg_def finalConfig_def)
  obtain r1 lw1 where
    r0: "retry_loop cfg (logged_as mark (emit p (StreamProcessor.chatId p) c f)) 1 None (log0, w) = (r1, lw1)"
    by (cases "retry_loop cfg (logged_as mark (emit p (StreamProcessor.chatId p) c f)) 1 None (log0, w)")
  obtain lg1 w1 where lw1: "lw1 = (lg1, w1)" by (cases lw1)
  note r = r0[unfolded lw1]
  from retry_loop_logged_as[OF r] obtain new where
    n1: "lg1 = log0 @ map mark new" and ro: "retry_outcome cfg 1 None r1 new"
    by blast
  from ro m have ne: "new \<noteq> []"
    by (cases r1) (auto simp: retry_outcome_def split: raised.splits)
  from ro m have la: "case r1 of Inr v \<Rightarrow> last new = Inr () | Inl err \<Rightarrow> last new \<noteq> Inr ()"
    by (cases r1) (auto simp: retry_outcome_def split: raised.splits)
  from ro m have le3: "length new \<le> 3" by (simp add: retry_outcome_def)
  from ro have bl: "\<forall>r \<in> set (butlast new). r \<noteq> Inr ()" by (auto simp: retry_outcome_def)
  have eq: "sendPartialUpdate (logged_emit emit) p c f (log0, w)
              = (case r1 of Inr u \<Rightarrow> (Inr (), (if f then p\<lparr>buffer := []\<rparr> else p), (lg1, w1))
                 | Inl err \<Rightarrow> (Inl err, p, (lg1, w1)))"
    unfolding sendPartialUpdate_def retry_def logged_emit_def r[unfolded cfg_def mark_def]
    by (simp split: sum.splits)
  from assms[unfolded eq]
  have res: "case r1 of Inr u \<Rightarrow> res = Inr () \<and> p' = (if f then p\<lparr>buffer := []\<rparr> else p)
                | Inl err \<Rightarrow> res = Inl err \<and> p' = p"
    by (cases r1) auto
  from assms[unfolded eq] have lg: "log = lg1"
    by (cases r1) auto
  have lg': "log = log0 @ calls_of c f (isComplete p) new"
    using lg n1 by (simp add: calls_of_def mark_def)
  show ?thesis
    apply (rule exI[of _ new])
    using ne le3 lg' bl la res
    by (cases r1) auto
qed

lemma process_chunks_logged:
  assumes "process_chunks (logged_emit emit) chunks full p (log0, w) = (res, p', (log, w'))"
  shows "\<exists>new k. log = log0 @ new
           \<and> (\<forall>x \<in> set new. \<not> call_isFinal x \<and> call_whileComplete x = isComplete p)
           \<and> isComplete p' = isComplete p \<and> options p' = options p \<and> StreamProcessor.chatId p' = StreamProcessor.chatId p
           \<and> k \<le> length chunks \<and> buffer p' = buffer p @ concat (map fst (take k chunks))
           \<and> (\<forall>r. res = Inr r \<longrightarrow> r = full @ concat (map fst chunks)
                    \<and> buffer p' = buffer p @ concat (map fst chunks))"
  using assms
proof (induction chunks arbitrary: full p log0 w)
  case Nil
  then show ?case by (intro exI[of _ "[]"] exI[of _ 0]) auto
next
  case (Cons a chunks)
  obtain chunk now where a: "a = (chunk, now)" by (cases a)
  define q where "q = p\<lparr>buffer := buffer p @ chunk\<rparr>"
  have q: "isComplete q = isComplete p" "options q = options p" "StreamProcessor.chatId q = StreamProcessor.chatId p"
    "buffer q = buffer p @ chunk"
    by (simp_all add: q_def)
  show ?case
  proof (cases "shouldSendPartialUpdate q now")
    case False
    with Cons.prems a have
      "process_chunks (logged_emit emit) chunks (full @ chunk) q (log0, w) = (res, p', (log, w'))"
      by (simp add: Let_def q_def)
    from Cons.IH[OF this] obtain new k where
      h: "log = log0 @ new" "\<forall>x \<in> set new. \<not> call_isFinal x \<and> call_whileComplete x = isComplete q"
         "isComplete p' = isComplete q" "options p' = options q" "StreamProcessor.chatId p' = StreamProcessor.chatId q"
         "k \<le> length chunks" "buffer p' = buffer q @ concat (map fst (take k chunks))"
         "\<forall>r. res = Inr r \<longrightarrow> r = (full @ chunk) @ concat (map fst chunks)
                    \<and> buffer p' = buffer q @ concat (map fst chunks)"
      by blast
    show ?thesis
      apply (rule exI[of _ new], rule exI[of _ "Suc k"])
      using h a q by auto
  next
    case True
    obtain r1 p1 lg1 w1 where
      s: "sendPartialUpdate (logged_emit emit) q (buffer q) False (log0, w) = (r1, p1, (lg1, w1))"
      by (cases "sendPartialUpdate (logged_emit emit) q (buffer q) False (log0, w)") auto
    from sendPartialUpdate_logged[OF s] obtain rs where
      rs: "lg1 = log0 @ calls_of (buffer q) False (isComplete q) rs"
      and rc: "case r1 of Inr u \<Rightarrow> last rs = Inr () \<and> p1 = (if False then q\<lparr>buffer := []\<rparr> else q)
                | Inl err \<Rightarrow> last rs \<noteq> Inr () \<and> p1 = q"
      by blast
    then have p1: "p1 = q" by (cases r1) auto
    have fl: "\<forall>x \<in> set (calls_of (buffer q) False (isComplete q) rs).
                \<not> call_isFinal x \<and> call_whileComplete x = isComplete p"
      by (auto simp: calls_of_def q)
    show ?thesis
    proof (cases r1)
      case (Inl err)
      with Cons.prems a True s have "res = Inl err" "p' = p1" "log = lg1"
        by (auto simp: Let_def q_def)
      then show ?thesis
        apply (intro exI[of _ "calls_of (buffer q) False (isComplete q) rs"] exI[of _ "Suc 0"])
        using rs p1 fl a q by auto
    next
      case (Inr u)
      define q' where "q' = q\<lparr>lastUpdateTime := now\<rparr>"
      have q': "isComplete q' = isComplete p" "options q' = options p" "StreamProcessor.chatId q' = StreamProcessor.chatId p"
        "buffer q' = buffer p @ chunk"
        by (simp_all add: q'_def q)
      from Inr Cons.prems a True s p1 have
        "process_chunks (logged_emit emit) chunks (full @ chunk) q' (lg1, w1)
           = (res, p', (log, w'))"
        by (simp add: Let_def q_def q'_def)
      from Cons.IH[OF this] obtain new k where
        h: "log = lg1 @ new" "\<forall>x \<in> set new. \<not> call_isFinal x \<and> call_whileComplete x = isComplete q'"
         "isComplete p' = isComplete q'" "options p' = options q'" "StreamProcessor.chatId p' = StreamProcessor.chatId q'"
         "k \<le> length chunks" "buffer p' = buffer q' @ concat (map fst (take k chunks))"
         "\<forall>r. res = Inr r \<longrightarrow> r = (full @ chunk) @ concat (map fst chunks)
                    \<and> buffer p' = buffer q' @ concat (map fst chunks)"
        by blast
      show ?thesis
        apply (rule exI[of _ "calls_of (buffer q) False (isComplete q) rs @ new"], rule exI[of _ "Suc k"])
        using h rs fl a q' by auto
    qed
  qed
qed

lemma calls_of_props:
  "\<forall>x \<in> set (calls_of c f cpl rs). call_content x = c \<and> call_isFinal x = f \<and> call_whileComplete x = cpl"
  "length (calls_of c f cpl rs) = length rs"
  "calls_of c f cpl rs = [] \<longleftrightarrow> rs = []"
  "rs \<noteq> [] \<Longrightarrow> call_outcome (last (calls_of c f cpl rs)) = last rs"
  "\<forall>r \<in> set (butlast rs). r \<noteq> Inr () \<Longrightarrow>
     \<forall>x \<in> set (butlast (calls_of c f cpl rs)). call_outcome x \<noteq> Inr ()"
  by (auto simp: calls_of_def last_map map_butlast[symmetric])

lemma process_logged:
  assumes "process (logged_emit emit) p sr (log0, w) = (res, p', (log, w'))"
  shows "\<exists>partials finals k. log = log0 @ partials @ finals
     \<and> (\<forall>x \<in> set partials. \<not> call_isFinal x \<and> call_whileComplete x = isComplete p)
     \<and> (\<forall>x \<in> set finals. call_isFinal x \<and> call_whileComplete x
                            \<and> call_content x = concat (map fst (textStream sr)))
     \<and> length finals \<le> 3
     \<and> (\<forall>x \<in> set (butlast finals). call_outcome x \<noteq> Inr ())
     \<and> (finals = [] \<longrightarrow> isComplete p' = isComplete p \<and> k \<le> length (textStream sr)
            \<and> buffer p' = buffer p @ concat (map fst (take k (textStream sr)))
            \<and> (\<exists>err. res = Inl err))
     \<and> (finals \<noteq> [] \<longrightarrow> isComplete p'
            \<and> (if call_outcome (last finals) = Inr () then buffer p' = []
                else buffer p' = buffer p @ concat (map fst (textStream sr))
                     \<and> (\<exists>err. res = Inl err)))
     \<and> (\<forall>r. res = Inr r \<longrightarrow> r = concat (map fst (textStream sr)) \<and> finals \<noteq> []
                 \<and> call_outcome (last finals) = Inr ())"
proof -
  let ?all = "concat (map fst (textStream sr))"
  obtain r1 p1 lw1 where c0: "process_chunks (logged_emit emit) (textStream sr) [] p (log0, w) = (r1, p1, lw1)"
    by (cases "process_chunks (logged_emit emit) (textStream sr) [] p (log0, w)") auto
  obtain lg1 w1 where lw1: "lw1 = (lg1, w1)" by (cases lw1)
  note c = c0[unfolded lw1]
  from process_chunks_logged[OF c] obtain new k where
    h: "lg1 = log0 @ new" "\<forall>x \<in> set new. \<not> call_isFinal x \<and> call_whileComplete x = isComplete p"
       "isComplete p1 = isComplete p" "options p1 = options p" "StreamProcessor.chatId p1 = StreamProcessor.chatId p"
       "k \<le> length (textStream sr)" "buffer p1 = buffer p @ concat (map fst (take k (textStream sr)))"
       "\<forall>r. r1 = Inr r \<longrightarrow> r = [] @ ?all \<and> buffer p1 = buffer p @ ?all"
    by blast
  note run = assms[unfolded process_def c]
  show ?thesis
  proof (cases r1)
    case (Inl err)
    with run have e: "res = Inl err" "p' = p1" "log = lg1" by auto
    show ?thesis
      apply (rule exI[of _ new], rule exI[of _ "[]"], rule exI[of _ k])
      using e h by simp
  next
    case (Inr full)
    with h have full: "full = ?all" and b1: "buffer p1 = buffer p @ ?all" by auto
    show ?thesis
    proof (cases "textStream_error sr")
      case (Some e)
      with run Inr have e: "res = Inl (Rethrown e)" "p' = p1" "log = lg1" by auto
      show ?thesis
        apply (rule exI[of _ new], rule exI[of _ "[]"], rule exI[of _ k])
        using e h by simp
    next
      case None
      define p2 where "p2 = p1\<lparr>isComplete := True\<rparr>"
      have p2: "isComplete p2" "buffer p2 = buffer p1" by (simp_all add: p2_def)
      obtain r2 p3 lw3 where s0: "sendPartialUpdate (logged_emit emit) p2 full True (lg1, w1) = (r2, p3, lw3)"
        by (cases "sendPartialUpdate (logged_emit emit) p2 full True (lg1, w1)") auto
      obtain lg3 w3 where lw3: "lw3 = (lg3, w3)" by (cases lw3)
      note s = s0[unfolded lw3]
      from sendPartialUpdate_logged[OF s] obtain rs where
        rs: "rs \<noteq> []" "length rs \<le> 3" "lg3 = lg1 @ calls_of full True (isComplete p2) rs"
          "\<forall>r \<in> set (butlast rs). r \<noteq> Inr ()"
        and rc: "case r2 of
                 Inr u \<Rightarrow> last rs = Inr () \<and> p3 = (if True then p2\<lparr>buffer := []\<rparr> else p2)
               | Inl err \<Rightarrow> last rs \<noteq> Inr () \<and> p3 = p2"
        by blast
      let ?finals = "calls_of full True True rs"
      have lg3: "lg3 = log0 @ new @ ?finals" using rs(3) h(1) p2 by simp
      have fin: "\<forall>x \<in> set ?finals. call_isFinal x \<and> call_whileComplete x \<and> call_content x = ?all"
        using calls_of_props(1)[where c = full and f = True and cpl = True and rs = rs] full by auto
      have len: "length ?finals \<le> 3" "?finals \<noteq> []"
        "call_outcome (last ?finals) = last rs"
        "\<forall>x \<in> set (butlast ?finals). call_outcome x \<noteq> Inr ()"
        using rs calls_of_props(2-5)[where c = full and f = True and cpl = True and rs = rs] by auto
      note run' = run[unfolded Inr None, simplified, folded p2_def, unfolded Let_def s, simplified]
      show ?thesis
      proof (cases r2)
        case (Inl err)
        with run' rc have e: "res = Inl err" "p' = p2" "log = lg3" "last rs \<noteq> Inr ()"
          by auto
        show ?thesis
          apply (rule exI[of _ new], rule exI[of _ ?finals], rule exI[of _ k])
          using e h(2) lg3 fin len p2 b1 by simp
      next
        case r2: (Inr u)
        with rc have p3: "p3 = p2\<lparr>buffer := []\<rparr>" and ok: "last rs = Inr ()" by auto
        from run' r2 have e: "p' = p3" "log = lg3"
          "res = (case finishReason sr of Inl e \<Rightarrow> Inl (Rethrown e) | Inr reason \<Rightarrow> Inr full)"
          by (auto split: sum.splits)
        show ?thesis
          apply (rule exI[of _ new], rule exI[of _ ?finals], rule exI[of _ k])
          using e h(2) lg3 fin len p2 p3 ok full by (auto split: sum.splits)
      qed
    qed
  qed
qed

lemma new_StreamProcessor_fresh:
  "buffer (new_StreamProcessor cid opts) = []"
  "lastUpdateTime (new_StreamProcessor cid opts) = 0"
  "\<not> isComplete (new_StreamProcessor cid opts)"
  by (simp_all add: new_StreamProcessor_def)

lemma process_success_log:
  assumes "process (logged_emit emit) p sr ([], w) = (Inr result, p', (log, w'))"
  shows "result = concat (map fst (textStream sr))
       \<and> log \<noteq> [] \<and> call_isFinal (last log) \<and> call_outcome (last log) = Inr ()
       \<and> call_content (last log) = concat (map fst (textStream sr))
       \<and> filter (\<lambda>x. call_isFinal x \<and> call_outcome x = Inr ()) log = [last log]
       \<and> (\<exists>partials finals. log = partials @ finals
             \<and> (\<forall>x \<in> set partials. \<not> call_isFinal x)
             \<and> (\<forall>x \<in> set finals. call_isFinal x
                                    \<and> call_content x = concat (map fst (textStream sr)))
             \<and> length finals \<le> 3
             \<and> (\<forall>x \<in> set (butlast finals). call_outcome x \<noteq> Inr ()))"
proof -
  let ?all = "concat (map fst (textStream sr))"
  from process_logged[OF assms] obtain partials finals where
    l: "log = [] @ partials @ finals"
    and pa: "\<forall>x \<in> set partials. \<not> call_isFinal x \<and> call_whileComplete x = isComplete p"
    and fi: "\<forall>x \<in> set finals. call_isFinal x \<and> call_whileComplete x \<and> call_content x = ?all"
    and le: "length finals \<le> 3"
    and bl: "\<forall>x \<in> set (butlast finals). call_outcome x \<noteq> Inr ()"
    and ok: "\<forall>r. Inr result = Inr r \<longrightarrow> r = ?all \<and> finals \<noteq> []
                 \<and> call_outcome (last finals) = Inr ()"
    by blast
  from ok have r: "result = ?all" and ne: "finals \<noteq> []"
    and lo: "call_outcome (last finals) = Inr ()" by auto
  from ne l have ll: "last log = last finals" and lne: "log \<noteq> []" by auto
  from ne fi have lf: "call_isFinal (last finals)" "call_content (last finals) = ?all"
    using last_in_set by blast+
  have f1: "filter (\<lambda>x. call_isFinal x \<and> call_outcome x = Inr ()) partials = []"
    using pa by (auto simp: filter_empty_conv)
  have f2: "filter (\<lambda>x. call_isFinal x \<and> call_outcome x = Inr ()) (butlast finals) = []"
    using bl by (auto simp: filter_empty_conv)
  have "filter (\<lambda>x. call_isFinal x \<and> call_outcome x = Inr ()) finals
          = filter (\<lambda>x. call_isFinal x \<and> call_outcome x = Inr ()) (butlast finals @ [last finals])"
    using ne by simp
  also have "\<dots> = [last finals]"
    unfolding filter_append f2 using lf lo by simp
  finally have f3: "filter (\<lambda>x. call_isFinal x \<and> call_outcome x = Inr ()) finals = [last finals]" .
  have f: "filter (\<lambda>x. call_isFinal x \<and> call_outcome x = Inr ()) log = [last log]"
    unfolding ll using l f1 f3 by simp
  have ex: "\<exists>partials finals. log = partials @ finals
             \<and> (\<forall>x \<in> set partials. \<not> call_isFinal x)
             \<and> (\<forall>x \<in> set finals. call_isFinal x \<and> call_content x = ?all)
             \<and> length finals \<le> 3
             \<and> (\<forall>x \<in> set (butlast finals). call_outcome x \<noteq> Inr ())"
    apply (rule exI[of _ partials], rule exI[of _ finals])
    using l pa fi le bl by simp
  show ?thesis
    using r lne ll lf lo f ex by simp
qed

lemma process_fresh_log:
  assumes "process (logged_emit emit) p sr ([], w) = (res, p', (log, w'))"
    and fresh: "\<not> isComplete p" "buffer p = []"
  shows "(\<forall>x \<in> set log. call_whileComplete x = call_isFinal x)
       \<and> (isComplete p' \<longleftrightarrow> (\<exists>x \<in> set log. call_isFinal x))
       \<and> ((\<exists>x \<in> set log. call_isFinal x \<and> call_outcome x = Inr ())
            \<longrightarrow> buffer p' = [] \<and> call_isFinal (last log) \<and> call_outcome (last log) = Inr ()
                \<and> (\<forall>x \<in> set (butlast log). \<not> (call_isFinal x \<and> call_outcome x = Inr ())))
       \<and> (\<not> (\<exists>x \<in> set log. call_isFinal x \<and> call_outcome x = Inr ())
            \<longrightarrow> (\<exists>k \<le> length (textStream sr). buffer p' = concat (map fst (take k (textStream sr))))
                \<and> (isComplete p' \<longrightarrow> buffer p' = concat (map fst (textStream sr)))
                \<and> (\<exists>err. res = Inl err))
       \<and> (\<forall>r. res = Inr r \<longrightarrow> isComplete p' \<and> buffer p' = [])"
proof -
  let ?all = "concat (map fst (textStream sr))"
  let ?good = "\<lambda>x. call_isFinal x \<and> call_outcome x = Inr ()"
  from process_logged[OF assms(1)] obtain partials finals k where
    l: "log = [] @ partials @ finals"
    and pa: "\<forall>x \<in> set partials. \<not> call_isFinal x \<and> call_whileComplete x = isComplete p"
    and fi: "\<forall>x \<in> set finals. call_isFinal x \<and> call_whileComplete x \<and> call_content x = ?all"
    and bl: "\<forall>x \<in> set (butlast finals). call_outcome x \<noteq> Inr ()"
    and e: "finals = [] \<longrightarrow> isComplete p' = isComplete p \<and> k \<le> length (textStream sr)
            \<and> buffer p' = buffer p @ concat (map fst (take k (textStream sr)))
            \<and> (\<exists>err. res = Inl err)"
    and n: "finals \<noteq> [] \<longrightarrow> isComplete p'
            \<and> (if call_outcome (last finals) = Inr () then buffer p' = []
                else buffer p' = buffer p @ ?all \<and> (\<exists>err. res = Inl err))"
    and ok: "\<forall>r. res = Inr r \<longrightarrow> r = ?all \<and> finals \<noteq> [] \<and> call_outcome (last finals) = Inr ()"
    by blast
  have a: "\<forall>x \<in> set log. call_whileComplete x = call_isFinal x"
    using l pa fi fresh by auto
  have b: "isComplete p' \<longleftrightarrow> (\<exists>x \<in> set log. call_isFinal x)"
  proof (cases "finals = []")
    case True
    with e l pa fresh show ?thesis by auto
  next
    case False
    then have "last finals \<in> set log" using l by simp
    with False n fi show ?thesis by auto
  qed
  have good_last: "finals \<noteq> [] \<and> call_outcome (last finals) = Inr ()" if "\<exists>x \<in> set log. ?good x"
  proof -
    from that l pa obtain x where x: "x \<in> set finals" "call_outcome x = Inr ()" by auto
    then have ne: "finals \<noteq> []" by auto
    have "x \<notin> set (butlast finals)" using bl x(2) by auto
    from ne obtain ys y where ys: "finals = ys @ [y]"
      by (cases finals rule: rev_cases) auto
    with x(1) \<open>x \<notin> set (butlast finals)\<close> have "x = last finals"
      by auto
    with x ne show ?thesis by simp
  qed
  have c: "(\<exists>x \<in> set log. ?good x)
            \<longrightarrow> buffer p' = [] \<and> call_isFinal (last log) \<and> call_outcome (last log) = Inr ()
                \<and> (\<forall>x \<in> set (butlast log). \<not> ?good x)"
  proof
    assume g: "\<exists>x \<in> set log. ?good x"
    from good_last[OF g] have ne: "finals \<noteq> []" and lo: "call_outcome (last finals) = Inr ()"
      by auto
    from ne l have ll: "last log = last finals" and bu: "butlast log = partials @ butlast finals"
      by (auto simp: butlast_append)
    from ne fi have "call_isFinal (last finals)" using last_in_set by blast
    moreover from n ne lo have "buffer p' = []" by simp
    moreover have "\<forall>x \<in> set (butlast log). \<not> ?good x"
      unfolding bu using pa bl by auto
    ultimately show "buffer p' = [] \<and> call_isFinal (last log) \<and> call_outcome (last log) = Inr ()
                \<and> (\<forall>x \<in> set (butlast log). \<not> ?good x)"
      using ll lo by simp
  qed
  have d: "\<not> (\<exists>x \<in> set log. ?good x)
            \<longrightarrow> (\<exists>k \<le> length (textStream sr). buffer p' = concat (map fst (take k (textStream sr))))
                \<and> (isComplete p' \<longrightarrow> buffer p' = ?all)
                \<and> (\<exists>err. res = Inl err)"
  proof
    assume g: "\<not> (\<exists>x \<in> set log. ?good x)"
    show "(\<exists>k \<le> length (textStream sr). buffer p' = concat (map fst (take k (textStream sr))))
                \<and> (isComplete p' \<longrightarrow> buffer p' = ?all)
                \<and> (\<exists>err. res = Inl err)"
    proof (cases "finals = []")
      case True
      with e fresh show ?thesis by auto
    next
      case False
      then have "last finals \<in> set log" "call_isFinal (last finals)"
        using l fi last_in_set by auto
      with g have "call_outcome (last finals) \<noteq> Inr ()" by blast
      with n False fresh have "buffer p' = ?all" "\<exists>err. res = Inl err" by auto
      then show ?thesis
        by (auto intro: exI[of _ "length (textStream sr)"])
    qed
  qed
  have f: "\<forall>r. res = Inr r \<longrightarrow> isComplete p' \<and> buffer p' = []"
    using ok n by auto
  show ?thesis using a b c d f by blast
qed

lemma process_chunks_first_call:
  assumes "shouldSendPartialUpdate (p\<lparr>buffer := buffer p @ chunk\<rparr>) now"
    and "process_chunks (logged_emit emit) ((chunk, now) # rest) full p (log0, w) = (res, p', (log, w'))"
  shows "\<exists>r more. log = log0 @ \<lparr>call_content = buffer p @ chunk, call_isFinal = False,
                                  call_whileComplete = isComplete p, call_outcome = r\<rparr> # more"
proof -
  define q where "q = p\<lparr>buffer := buffer p @ chunk\<rparr>"
  have q: "isComplete q = isComplete p" "buffer q = buffer p @ chunk"
    by (simp_all add: q_def)
  obtain r1 p1 lw1 where s0: "sendPartialUpdate (logged_emit emit) q (buffer q) False (log0, w) = (r1, p1, lw1)"
    by (cases "sendPartialUpdate (logged_emit emit) q (buffer q) False (log0, w)") auto
  obtain lg1 w1 where lw1: "lw1 = (lg1, w1)" by (cases lw1)
  note s = s0[unfolded lw1]
  from sendPartialUpdate_logged[OF s] obtain rs where
    rs: "rs \<noteq> []" "lg1 = log0 @ calls_of (buffer q) False (isComplete q) rs"
    by blast
  then obtain r rs' where "rs = r # rs'" by (cases rs) auto
  with rs q have lg1: "lg1 = log0 @ \<lparr>call_content = buffer p @ chunk, call_isFinal = False,
                                  call_whileComplete = isComplete p, call_outcome = r\<rparr>
                                # calls_of (buffer q) False (isComplete q) rs'"
    by (simp add: calls_of_def)
  note run = assms(2)[unfolded process_chunks.simps Let_def, folded q_def, unfolded s]
  show ?thesis
  proof (cases r1)
    case (Inl err)
    with run assms(1) have "log = lg1" by (simp add: q_def)
    with lg1 show ?thesis by blast
  next
    case (Inr u)
    with run assms(1) have
      "process_chunks (logged_emit emit) rest (full @ chunk) (p1\<lparr>lastUpdateTime := now\<rparr>) (lg1, w1)
         = (res, p', (log, w'))"
      by (simp add: q_def)
    from process_chunks_logged[OF this] obtain new where "log = lg1 @ new" by blast
    with lg1 show ?thesis by simp
  qed
qed

lemma process_log_extends:
  assumes "process (logged_emit emit) p sr (log0, w) = (res, p', (log, w'))"
    and "process_chunks (logged_emit emit) (textStream sr) [] p (log0, w) = (r1, p1, (lg1, w1))"
  shows "\<exists>more. log = lg1 @ more"
proof -
  note run = assms(1)[unfolded process_def assms(2)]
  show ?thesis
  proof (cases r1)
    case (Inl err)
    with run show ?thesis by simp
  next
    case (Inr full)
    show ?thesis
    proof (cases "textStream_error sr")
      case (Some e)
      with run Inr show ?thesis by simp
    next
      case None
      define p2 where "p2 = p1\<lparr>isComplete := True\<rparr>"
      obtain r2 p3 lw3 where s0: "sendPartialUpdate (logged_emit emit) p2 full True (lg1, w1) = (r2, p3, lw3)"
        by (cases "sendPartialUpdate (logged_emit emit) p2 full True (lg1, w1)") auto
      obtain lg3 w3 where lw3: "lw3 = (lg3, w3)" by (cases lw3)
      note s = s0[unfolded lw3]
      from sendPartialUpdate_logged[OF s] obtain rs where
        rs: "lg3 = lg1 @ calls_of full True (isComplete p2) rs"
        by blast
      note run' = run[unfolded Inr None, simplified, folded p2_def, unfolded Let_def s, simplified]
      from run' have "log = lg3" by (cases r2) (auto split: sum.splits)
      with rs show ?thesis by simp
    qed
  qed
qed

text \<open>With a positive \<open>chunkThreshold\<close>, empty fragments arriving at an empty buffer do nothing.\<close>

lemma process_chunks_skip_empty:
  assumes "buffer p = []" and "0 < opt_chunkThreshold (options p)"
  shows "process_chunks E (map (\<lambda>t. ([], t)) ts @ xs) full p lw = process_chunks E xs full p lw"
proof (induction ts)
  case Nil
  show ?case by simp
next
  case (Cons t ts)
  have "\<not> shouldSendPartialUpdate p t"
    using assms by (simp add: shouldSendPartialUpdate_def)
  then show ?case
    using Cons by (simp add: Let_def)
qed

lemma sample_run_flaky:
  "process (logged_emit emit_flaky)
     (new_StreamProcessor ''c''
        \<lparr>chunkThreshold = Some 100, timeThreshold = Some 1000, sendPartialUpdates = Some True\<rparr>)
     sample_stream ([], 0)
   = (Inr ''Hello, world'',
      \<lparr>buffer = [], lastUpdateTime = 1700000001200, isComplete = True, StreamProcessor.chatId = ''c'',
        options = \<lparr>opt_chunkThreshold = 100, opt_timeThreshold = 1000,
                   opt_sendPartialUpdates = True\<rparr>\<rparr>,
      [\<lparr>call_content = ''Hel'', call_isFinal = False, call_whileComplete = False,
         call_outcome = Inl (PlainError ''timeout'')\<rparr>,
       \<lparr>call_content = ''Hel'', call_isFinal = False, call_whileComplete = False,
         call_outcome = Inr ()\<rparr>,
       \<lparr>call_content = ''Hello, wor'', call_isFinal = False, call_whileComplete = False,
         call_outcome = Inl (PlainError ''timeout'')\<rparr>,
       \<lparr>call_content = ''Hello, wor'', call_isFinal = False, call_whileComplete = False,
         call_outcome = Inr ()\<rparr>,
       \<lparr>call_content = ''Hello, world'', call_isFinal = True, call_whileComplete = True,
         call_outcome = Inl (PlainError ''timeout'')\<rparr>,
       \<lparr>call_content = ''Hello, world'', call_isFinal = True, call_whileComplete = True,
         call_outcome = Inr ()\<rparr>],
      6)"
  by code_simp

lemma sample_run_reject_final:
  "process (logged_emit emit_reject_final) (new_StreamProcessor ''c'' sample_options)
     sample_stream ([], 0)
   = (Inl (Rethrown (AppError ''rejected'' False)),
      \<lparr>buffer = ''Hello, world'', lastUpdateTime = 1700000001200, isComplete = True,
        StreamProcessor.chatId = ''c'',
        options = \<lparr>opt_chunkThreshold = 100, opt_timeThreshold = 1000,
                   opt_sendPartialUpdates = True\<rparr>\<rparr>,
      [\<lparr>call_content = ''Hel'', call_isFinal = False, call_whileComplete = False,
         call_outcome = Inr ()\<rparr>,
       \<lparr>call_content = ''Hello, wor'', call_isFinal = False, call_whileComplete = False,
         call_outcome = Inr ()\<rparr>,
       \<lparr>call_content = ''Hello, world'', call_isFinal = True, call_whileComplete = True,
         call_outcome = Inl (AppError ''rejected'' False)\<rparr>],
      3)"
  by code_simp

text \<open>
  Claim C5.  Take a fresh processor with \<open>chunkThreshold = 100\<close> and
  \<open>timeThreshold = 1000\<close>, any callback, and any stream on which \<open>process\<close> succeeds.
  Then the text returned is the concatenation of all fragments in arrival order; the last
  call of the callback is a successful one with \<open>isFinal = true\<close> and that text as
  content; it is the only successful call with \<open>isFinal = true\<close>; and the log of calls
  is the calls with \<open>isFinal = false\<close> followed by at most three calls with
  \<open>isFinal = true\<close>, all with that content, of which only the last succeeded (the
  others are the failed attempts of the same final emission that \<open>retry\<close> repeated).
\<close>

theorem final_emission_once_and_last:
  assumes "process (logged_emit emit)
             (new_StreamProcessor cid
                \<lparr>chunkThreshold = Some 100, timeThreshold = Some 1000,
                 sendPartialUpdates = enabled\<rparr>)
             sr ([], w)
           = (Inr result, p', (log, w'))"
  shows "result = concat (map fst (textStream sr))
       \<and> log \<noteq> [] \<and> call_isFinal (last log) \<and> call_outcome (last log) = Inr ()
       \<and> call_content (last log) = concat (map fst (textStream sr))
       \<and> filter (\<lambda>x. call_isFinal x \<and> call_outcome x = Inr ()) log = [last log]
       \<and> (\<exists>partials finals. log = partials @ finals
             \<and> (\<forall>x \<in> set partials. \<not> call_isFinal x)
             \<and> (\<forall>x \<in> set finals. call_isFinal x
                                    \<and> call_content x = concat (map fst (textStream sr)))
             \<and> length finals \<le> 3
             \<and> (\<forall>x \<in> set (butlast finals). call_outcome x \<noteq> Inr ()))"
  using assms by (rule process_success_log)

theorem final_emission_once_and_last_witness:
  "process (logged_emit emit_flaky)
     (new_StreamProcessor ''c''
        \<lparr>chunkThreshold = Some 100, timeThreshold = Some 1000, sendPartialUpdates = Some True\<rparr>)
     sample_stream ([], 0)
   = (Inr ''Hello, world'',
      \<lparr>buffer = [], lastUpdateTime = 1700000001200, isComplete = True, StreamProcessor.chatId = ''c'',
        options = \<lparr>opt_chunkThreshold = 100, opt_timeThreshold = 1000,
                   opt_sendPartialUpdates = True\<rparr>\<rparr>,
      [\<lparr>call_content = ''Hel'', call_isFinal = False, call_whileComplete = False,
         call_outcome = Inl (PlainError ''timeout'')\<rparr>,
       \<lparr>call_content = ''Hel'', call_isFinal = False, call_whileComplete = False,
         call_outcome = Inr ()\<rparr>,
       \<lparr>call_content = ''Hello, wor'', call_isFinal = False, call_whileComplete = False,
         call_outcome = Inl (PlainError ''timeout'')\<rparr>,
       \<lparr>call_content = ''Hello, wor'', call_isFinal = False, call_whileComplete = False,
         call_outcome = Inr ()\<rparr>,
       \<lparr>call_content = ''Hello, world'', call_isFinal = True, call_whileComplete = True,
         call_outcome = Inl (PlainError ''timeout'')\<rparr>,
       \<lparr>call_content = ''Hello, world'', call_isFinal = True, call_whileComplete = True,
         call_outcome = Inr ()\<rparr>],
      6)
   \<and> ''Hello, world'' = concat (map fst (textStream sample_stream))"
proof -
  note h = sample_run_flaky
  from final_emission_once_and_last[OF h] have
    "''Hello, world'' = concat (map fst (textStream sample_stream))"
    by (rule conjunct1)
  with h show ?thesis by (rule conjI)
qed

text \<open>
  Claim C2 (as amended).  For a fresh processor, any callback and any stream:
  the calls of the callback made while \<open>isComplete\<close> is true are exactly the calls with
  \<open>isFinal = true\<close>, that is the attempts of the final emission (\<open>isComplete\<close> is set
  before the final emission, once the fragments are exhausted), and \<open>isComplete\<close> is
  true at the end exactly when the final emission was attempted;
  once a call with \<open>isFinal = true\<close> has succeeded the buffer is empty and that call is
  the last call of the callback;
  as long as no such call has succeeded the buffer is never cleared: it holds the
  fragments consumed so far, all of them when \<open>isComplete\<close> is true, and \<open>process\<close>
  fails;
  when \<open>process\<close> succeeds, \<open>isComplete\<close> is true and the buffer is empty.
\<close>

theorem complete_flag_and_buffer:
  assumes "process (logged_emit emit) (new_StreamProcessor cid opts) sr ([], w)
             = (res, p', (log, w'))"
  shows "(\<forall>x \<in> set log. call_whileComplete x = call_isFinal x)
       \<and> (isComplete p' \<longleftrightarrow> (\<exists>x \<in> set log. call_isFinal x))
       \<and> ((\<exists>x \<in> set log. call_isFinal x \<and> call_outcome x = Inr ())
            \<longrightarrow> buffer p' = [] \<and> call_isFinal (last log) \<and> call_outcome (last log) = Inr ()
                \<and> (\<forall>x \<in> set (butlast log). \<not> (call_isFinal x \<and> call_outcome x = Inr ())))
       \<and> (\<not> (\<exists>x \<in> set log. call_isFinal x \<and> call_outcome x = Inr ())
            \<longrightarrow> (\<exists>k \<le> length (textStream sr). buffer p' = concat (map fst (take k (textStream sr))))
                \<and> (isComplete p' \<longrightarrow> buffer p' = concat (map fst (textStream sr)))
                \<and> (\<exists>err. res = Inl err))
       \<and> (\<forall>r. res = Inr r \<longrightarrow> isComplete p' \<and> buffer p' = [])"
  using assms new_StreamProcessor_fresh(3) new_StreamProcessor_fresh(1)
  by (rule process_fresh_log)

theorem complete_flag_and_buffer_witness:
  "process (logged_emit emit_reject_final) (new_StreamProcessor ''c'' sample_options)
     sample_stream ([], 0)
   = (Inl (Rethrown (AppError ''rejected'' False)),
      \<lparr>buffer = ''Hello, world'', lastUpdateTime = 1700000001200, isComplete = True,
        StreamProcessor.chatId = ''c'',
        options = \<lparr>opt_chunkThreshold = 100, opt_timeThreshold = 1000,
                   opt_sendPartialUpdates = True\<rparr>\<rparr>,
      [\<lparr>call_content = ''Hel'', call_isFinal = False, call_whileComplete = False,
         call_outcome = Inr ()\<rparr>,
       \<lparr>call_content = ''Hello, wor'', call_isFinal = False, call_whileComplete = False,
         call_outcome = Inr ()\<rparr>,
       \<lparr>call_content = ''Hello, world'', call_isFinal = True, call_whileComplete = True,
         call_outcome = Inl (AppError ''rejected'' False)\<rparr>],
      3)
   \<and> ''Hello, world'' = concat (map fst (textStream sample_stream))"
proof -
  note h = sample_run_reject_final
  from complete_flag_and_buffer[OF h] have
    "\<not> (\<exists>x \<in> set [\<lparr>call_content = ''Hel'', call_isFinal = False, call_whileComplete = False,
                       call_outcome = Inr ()\<rparr>,
                     \<lparr>call_content = ''Hello, wor'', call_isFinal = False,
                       call_whileComplete = False, call_outcome = Inr ()\<rparr>,
                     \<lparr>call_content = ''Hello, world'', call_isFinal = True,
                       call_whileComplete = True,
                       call_outcome = Inl (AppError ''rejected'' False)\<rparr>].
           call_isFinal x \<and> call_outcome x = Inr ())
     \<longrightarrow> (True \<longrightarrow> ''Hello, world'' = concat (map fst (textStream sample_stream)))"
    by simp
  then have "''Hello, world'' = concat (map fst (textStream sample_stream))"
    by simp
  with h show ?thesis by (rule conjI)
qed

text \<open>
  Claim C2 as stated fails.  On the sample stream, with a callback that rejects the final
  update, \<open>process\<close> fails and leaves the processor with \<open>isComplete = true\<close> although
  the final emission never succeeded, and with the buffer not cleared; the third call of
  the callback was made when \<open>isComplete\<close> was already true.
\<close>

theorem complete_before_final_emission_counterexample:
  "process (logged_emit emit_reject_final) (new_StreamProcessor ''c'' sample_options)
     sample_stream ([], 0)
   = (Inl (Rethrown (AppError ''rejected'' False)),
      \<lparr>buffer = ''Hello, world'', lastUpdateTime = 1700000001200, isComplete = True,
        StreamProcessor.chatId = ''c'',
        options = \<lparr>opt_chunkThreshold = 100, opt_timeThreshold = 1000,
                   opt_sendPartialUpdates = True\<rparr>\<rparr>,
      [\<lparr>call_content = ''Hel'', call_isFinal = False, call_whileComplete = False,
         call_outcome = Inr ()\<rparr>,
       \<lparr>call_content = ''Hello, wor'', call_isFinal = False, call_whileComplete = False,
         call_outcome = Inr ()\<rparr>,
       \<lparr>call_content = ''Hello, world'', call_isFinal = True, call_whileComplete = True,
         call_outcome = Inl (AppError ''rejected'' False)\<rparr>],
      3)"
  by (rule sample_run_reject_final)

text \<open>
  Claim C9.  For a processor just constructed, with partial updates not switched off, a
  non-empty fragment received at a clock value of at least \<open>timeThreshold\<close> satisfies
  the emission predicate whatever its length, because \<open>lastUpdateTime\<close> is still 0.
  When it is the first fragment, or comes after empty fragments only (which emit nothing
  when \<open>chunkThreshold\<close> is positive and leave the processor as constructed), the first
  call of the callback made by \<open>process\<close> is the partial emission of that fragment.
\<close>

theorem first_fragment_triggers_partial:
  assumes "sendPartialUpdates opts \<noteq> Some False"
    and "chunk \<noteq> []"
    and "opt_timeThreshold (options (new_StreamProcessor cid opts)) \<le> now"
    and "textStream sr = map (\<lambda>t. ([], t)) empties @ (chunk, now) # rest"
    and "empties = [] \<or> 0 < opt_chunkThreshold (options (new_StreamProcessor cid opts))"
  shows "shouldSendPartialUpdate
           ((new_StreamProcessor cid opts)\<lparr>buffer := buffer (new_StreamProcessor cid opts) @ chunk\<rparr>)
           now
       \<and> (\<exists>r more. fst (snd (snd (process (logged_emit emit) (new_StreamProcessor cid opts) sr ([], w))))
              = \<lparr>call_content = chunk, call_isFinal = False, call_whileComplete = False,
                 call_outcome = r\<rparr> # more)"
proof -
  define p where "p = new_StreamProcessor cid opts"
  have fresh: "buffer p = []" "lastUpdateTime p = 0" "\<not> isComplete p"
    by (simp_all add: p_def new_StreamProcessor_def)
  have en: "opt_sendPartialUpdates (options p)"
    using assms(1) by (cases "sendPartialUpdates opts") (auto simp: p_def new_StreamProcessor_def)
  have sh: "shouldSendPartialUpdate (p\<lparr>buffer := buffer p @ chunk\<rparr>) now"
    using en fresh assms(2,3) by (simp add: shouldSendPartialUpdate_def p_def[symmetric])
  obtain res p' lw where r0: "process (logged_emit emit) p sr ([], w) = (res, p', lw)"
    by (cases "process (logged_emit emit) p sr ([], w)") auto
  obtain log w' where lw: "lw = (log, w')" by (cases lw)
  note r = r0[unfolded lw]
  obtain r1 p1 lw1 where c0: "process_chunks (logged_emit emit) (textStream sr) [] p ([], w) = (r1, p1, lw1)"
    by (cases "process_chunks (logged_emit emit) (textStream sr) [] p ([], w)") auto
  obtain lg1 w1 where lw1: "lw1 = (lg1, w1)" by (cases lw1)
  note c = c0[unfolded lw1]
  have skip: "process_chunks (logged_emit emit) (textStream sr) [] p ([], w)
                = process_chunks (logged_emit emit) ((chunk, now) # rest) [] p ([], w)"
  proof (cases "empties = []")
    case True
    then show ?thesis by (simp add: assms(4))
  next
    case False
    with assms(5) have "0 < opt_chunkThreshold (options p)" by (simp add: p_def)
    then show ?thesis
      unfolding assms(4) by (rule process_chunks_skip_empty[OF fresh(1)])
  qed
  from process_chunks_first_call[OF sh c[unfolded skip]] obtain r more where
    "lg1 = [] @ \<lparr>call_content = buffer p @ chunk, call_isFinal = False,
                  call_whileComplete = isComplete p, call_outcome = r\<rparr> # more"
    by blast
  moreover from process_log_extends[OF r c] obtain more' where "log = lg1 @ more'" by blast
  ultimately have "log = \<lparr>call_content = chunk, call_isFinal = False,
                  call_whileComplete = False, call_outcome = r\<rparr> # (more @ more')"
    using fresh by simp
  with r sh show ?thesis
    unfolding p_def[symmetric] by auto
qed

theorem first_fragment_triggers_partial_witness:
  "sendPartialUpdates sample_options \<noteq> Some False
   \<and> ''Hel'' \<noteq> []
   \<and> opt_timeThreshold (options (new_StreamProcessor ''c'' sample_options)) \<le> 1700000000000
   \<and> shouldSendPartialUpdate
        ((new_StreamProcessor ''c'' sample_options)
           \<lparr>buffer := buffer (new_StreamProcessor ''c'' sample_options) @ ''Hel''\<rparr>)
        1700000000000"
proof -
  have a: "sendPartialUpdates sample_options \<noteq> Some False"
    by (simp add: sample_options_def)
  have b: "''Hel'' \<noteq> []" by simp
  have c: "opt_timeThreshold (options (new_StreamProcessor ''c'' sample_options)) \<le> 1700000000000"
    by (simp add: sample_options_def new_StreamProcessor_def)
  have d: "textStream sample_stream
             = map (\<lambda>t. ([], t)) [] @ (''Hel'', 1700000000000)
               # [(''lo'', 1700000000100), ('', wor'', 1700000001200), (''ld'', 1700000001300)]"
    by (simp add: sample_stream_def)
  have e: "[] = ([] :: int list) \<or> 0 < opt_chunkThreshold (options (new_StreamProcessor ''c'' sample_options))"
    by simp
  from first_fragment_triggers_partial[OF a b c d e, where emit = emit_ok and w = 0]
  have "shouldSendPartialUpdate
        ((new_StreamProcessor ''c'' sample_options)
           \<lparr>buffer := buffer (new_StreamProcessor ''c'' sample_options) @ ''Hel''\<rparr>)
        1700000000000"
    by (rule conjunct1)
  with a b c show ?thesis by simp
qed

section \<open>Properties of the message transformer\<close>

text \<open>
  The replacements for inline code, bold and italic put back exactly the text they
  matched, so only the code-fence step and the link step can change the input.
\<close>

lemma startsWith_iff: "startsWith s p \<longleftrightarrow> (\<exists>r. s = p @ r)"
  by (induction s p rule: startsWith.induct) auto

lemma replace_all_identity:
  assumes "\<And>s n rep. m s = Some (n, rep) \<Longrightarrow> 0 < n \<and> n \<le> length s \<and> rep = take n s"
  shows "replace_all m s = s"
  using assms
proof (induction m s rule: replace_all.induct)
  case (1 m)
  show ?case
  proof (cases "m []")
    case None
    then show ?thesis by simp
  next
    case (Some a)
    obtain n rep where "a = (n, rep)" by (cases a)
    with Some "1.prems"[of "[]" n rep] show ?thesis by simp
  qed
next
  case (2 m c cs)
  show ?case
  proof (cases "m (c # cs)")
    case None
    with 2 show ?thesis by simp
  next
    case (Some a)
    obtain n rep where a: "a = (n, rep)" by (cases a)
    from "2.prems"[of "c # cs" n rep] Some a
    have n: "0 < n" "n \<le> length (c # cs)" "rep = take n (c # cs)" by auto
    from n(1) have ne: "n \<noteq> 0" by simp
    have "replace_all m (drop (n - 1) cs) = drop (n - 1) cs"
      by (rule "2.IH"(3)[OF Some a[symmetric] ne "2.prems"])
    with Some a n show ?thesis
      by (cases n) auto
  qed
qed

lemma delimited_take:
  assumes "delimited opening x closing s = Some (run, n)"
  shows "0 < n \<and> n \<le> length s \<and> take n s = opening @ run @ closing"
proof -
  from assms have sw: "startsWith s opening"
    by (auto simp: delimited_def split: if_splits)
  then obtain r where s: "s = opening @ r" by (auto simp: startsWith_iff)
  from assms sw s have run: "run = takeWhile (\<lambda>c. c \<noteq> x) r" "run \<noteq> []"
    and cl: "startsWith (drop (length run) r) closing"
    and n: "n = length opening + length run + length closing"
    by (auto simp: delimited_def Let_def split: if_splits)
  from cl obtain r' where r': "drop (length run) r = closing @ r'"
    by (auto simp: startsWith_iff)
  have "r = run @ drop (length run) r"
    unfolding run(1) by (metis takeWhile_dropWhile_id dropWhile_eq_drop)
  with r' have "r = run @ closing @ r'" by simp
  with s n run(2) show ?thesis by auto
qed

lemma replace_all_inline_code: "replace_all match_inline_code s = s"
  by (rule replace_all_identity)
     (auto simp: match_inline_code_def split: option.splits dest!: delimited_take)

lemma replace_all_bold: "replace_all match_bold s = s"
  by (rule replace_all_identity)
     (auto simp: match_bold_def split: option.splits dest!: delimited_take)

lemma replace_all_italic: "replace_all match_italic s = s"
  by (rule replace_all_identity)
     (auto simp: match_italic_def split: option.splits dest!: delimited_take)

lemma convertMarkdownToLark_steps:
  "convertMarkdownToLark markdown = replace_all match_link (replace_all match_fence markdown)"
  by (simp add: convertMarkdownToLark_def replace_all_inline_code replace_all_bold
        replace_all_italic)

text \<open>
  Claim C3.  The rich-text transformation is not an identity on links or on code fences:
  a link \<open>[docs](https://example.com)\<close> comes out with text and target exchanged, and
  a fenced block comes out with one more newline at the end of its contents.
\<close>

theorem markdown_link_and_fence_not_preserved:
  "resp_text (transformMoltbotToLark ''[docs](https://example.com)'' FormatMarkdown)
     = ''[https://example.com](docs)''
   \<and> resp_text (transformMoltbotToLark ''```js\<newline>let x = 1;\<newline>```'' FormatMarkdown)
     = ''```js\<newline>let x = 1;\<newline>\<newline>```''"
  by code_simp

text \<open>
  Claim C4 (as amended).  For a plain-text message (text content present, no post
  content), transforming to the model format and back with format \<open>text\<close> gives the
  original text preceded by the \<open>@name\<close> markers of its mentions, joined by spaces, and
  a space; it gives the original text itself when the message has no mentions.
\<close>

theorem plain_round_trip:
  assumes "textContent message = Some t" and "postContent message = None"
  shows "resp_text (transformMoltbotToLark (msg_text (transformLarkToMoltbot message)) FormatText)
           = (case mentions message of
                None \<Rightarrow> t
              | Some ms \<Rightarrow> if ms = [] then t
                          else join '' '' (map (\<lambda>m. ''@'' @ name m) ms) @ '' '' @ t)
       \<and> (mentions message = None \<or> mentions message = Some []
            \<longrightarrow> resp_text (transformMoltbotToLark (msg_text (transformLarkToMoltbot message))
                            FormatText) = t)"
  using assms
  by (auto simp: transformMoltbotToLark_def transformLarkToMoltbot_def truthy_def Let_def
           split: option.splits)

theorem plain_round_trip_witness:
  "textContent sample_message = Some ''hi''
   \<and> postContent sample_message = None
   \<and> resp_text (transformMoltbotToLark (msg_text (transformLarkToMoltbot sample_message)) FormatText)
       = ''@Ada @Grace hi''
   \<and> textContent (sample_message\<lparr>mentions := None\<rparr>) = Some ''hi''
   \<and> resp_text (transformMoltbotToLark
                  (msg_text (transformLarkToMoltbot (sample_message\<lparr>mentions := None\<rparr>)))
                  FormatText)
       = ''hi''"
proof -
  have a: "textContent sample_message = Some ''hi''"
    and b: "postContent sample_message = None"
    and c: "mentions sample_message = Some [\<lparr>mention_id = ''ou_2'', name = ''Ada''\<rparr>,
                                            \<lparr>mention_id = ''ou_3'', name = ''Grace''\<rparr>]"
    by (simp_all add: sample_message_def)
  have a': "textContent (sample_message\<lparr>mentions := None\<rparr>) = Some ''hi''"
    and b': "postContent (sample_message\<lparr>mentions := None\<rparr>) = None"
    by (simp_all add: sample_message_def)
  from plain_round_trip[OF a b] plain_round_trip[OF a' b']
  show ?thesis
    using a b a' by (simp add: c)
qed

text \<open>
  Claim C4 as stated fails for a plain-text message with mentions: the text \<open>hi\<close> comes
  back as \<open>@Ada @Grace hi\<close>.
\<close>

theorem plain_round_trip_mentions_counterexample:
  "textContent sample_message = Some ''hi''
   \<and> messageType sample_message = TEXT
   \<and> resp_text (transformMoltbotToLark (msg_text (transformLarkToMoltbot sample_message)) FormatText)
       = ''@Ada @Grace hi''
   \<and> resp_text (transformMoltbotToLark (msg_text (transformLarkToMoltbot sample_message)) FormatText)
       \<noteq> ''hi''"
  by (simp add: sample_message_def transformMoltbotToLark_def transformLarkToMoltbot_def
        truthy_def)

end
